theory Spec2Isabelle
  imports Main
begin

section \<open>JavaScript strings and values\<close>

text \<open>
  Strings are character lists. \<open>String.prototype.trim\<close> removes white space and line
  terminators from both ends; of the characters a \<^typ>\<open>char\<close> can hold these are tab,
  line feed, vertical tab, form feed, carriage return, space and the no-break space.
\<close>

definition isWhiteSpace :: "char \<Rightarrow> bool" where
  "isWhiteSpace c =
     (c = CHR 0x09 \<or> c = CHR 0x0A \<or> c = CHR 0x0B \<or> c = CHR 0x0C \<or> c = CHR 0x0D
      \<or> c = CHR 0x20 \<or> c = CHR 0xA0)"

definition trim :: "string \<Rightarrow> string" where
  "trim s = rev (dropWhile isWhiteSpace (rev (dropWhile isWhiteSpace s)))"

text \<open>\<open>haystack.includes(needle)\<close>: the needle occurs as a contiguous run.\<close>

fun startsWith :: "string \<Rightarrow> string \<Rightarrow> bool" where
  "startsWith s [] = True"
| "startsWith [] (c # cs) = False"
| "startsWith (d # ds) (c # cs) = (d = c \<and> startsWith ds cs)"

fun includesStr :: "string \<Rightarrow> string \<Rightarrow> bool" where
  "includesStr [] needle = (needle = [])"
| "includesStr (d # ds) needle = (startsWith (d # ds) needle \<or> includesStr ds needle)"

text \<open>A number in a template literal is printed in decimal.\<close>

definition digitChar :: "nat \<Rightarrow> char" where
  "digitChar n = ''0123456789'' ! n"

fun showNat :: "nat \<Rightarrow> string" where
  "showNat n = (if n < 10 then [digitChar n] else showNat (n div 10) @ [digitChar (n mod 10)])"

declare showNat.simps [simp del]

text \<open>
  The values a parameter of type \<open>unknown\<close> can hold, as far as \<open>typeof\<close>, \<open>== null\<close> and
  \<open>Array.isArray\<close> tell them apart. A hole of a sparse array reads as \<open>undefined\<close>:
  \<open>filter\<close> leaves it out and \<open>length\<close> counts it.
\<close>

datatype jsval =
    JUndefined
  | JNull
  | JBoolean bool
  | JNumber int
  | JBigInt int
  | JString string
  | JSymbol
  | JFunction
  | JObject
  | JArray "jsval list"

fun typeof :: "jsval \<Rightarrow> string" where
  "typeof JUndefined = ''undefined''"
| "typeof JNull = ''object''"
| "typeof (JBoolean b) = ''boolean''"
| "typeof (JNumber n) = ''number''"
| "typeof (JBigInt n) = ''bigint''"
| "typeof (JString s) = ''string''"
| "typeof JSymbol = ''symbol''"
| "typeof JFunction = ''function''"
| "typeof JObject = ''object''"
| "typeof (JArray xs) = ''object''"

section \<open>The sync payload sanitizer (create-client.ts)\<close>

text \<open>
  A log entry is what \<open>LogService.warn\<close> receives after the module name: the message and
  the optional extra argument. \<open>warn\<close> appends to the log, which is passed along.
\<close>

type_synonym logEntry = "string \<times> string option"

definition warn :: "string \<Rightarrow> string option \<Rightarrow> logEntry list \<Rightarrow> logEntry list" where
  "warn message extra lg = lg @ [(message, extra)]"

text \<open>The filter predicate of \<open>sanitizeUserIdList\<close> and the strings it keeps.\<close>

fun keepEntry :: "jsval \<Rightarrow> bool" where
  "keepEntry (JString s) = (typeof (JString s) = ''string'' \<and> length (trim s) > 0)"
| "keepEntry v = False"

fun stringsOf :: "jsval list \<Rightarrow> string list" where
  "stringsOf [] = []"
| "stringsOf (JString s # vs) = s # stringsOf vs"
| "stringsOf (v # vs) = stringsOf vs"

definition sanitizeUserIdList ::
  "jsval \<Rightarrow> string \<Rightarrow> logEntry list \<Rightarrow> string list \<times> logEntry list" where
  "sanitizeUserIdList input label lg =
     (if input = JNull \<or> input = JUndefined then ([], lg)
      else case input of
        JArray entries \<Rightarrow>
          (let filtered = filter keepEntry entries in
           (stringsOf filtered,
            if length filtered \<noteq> length entries
            then warn (''Dropping '' @ showNat (length entries - length filtered)
                       @ '' invalid '' @ label @ '' entries from sync payload'') None lg
            else lg))
      | other \<Rightarrow>
          (([], warn (''Expected '' @ label @ '' list to be an array, got '' @ typeof input)
                  None lg)))"

text \<open>
  What the wrapped call can throw: a string, an \<open>Error\<close> (with its message), or any other
  value. \<open>messageOf\<close> is the message the handler extracts.
\<close>

datatype thrown = ThrownString string | ThrownError string | ThrownOther

fun messageOf :: "thrown \<Rightarrow> string" where
  "messageOf (ThrownString s) = s"
| "messageOf (ThrownError m) = m"
| "messageOf ThrownOther = ''''"

text \<open>
  The replacement for \<open>client.crypto.updateSyncData\<close>. The original call is a parameter; it
  receives the two sanitized lists (its three other arguments are passed through untouched)
  and either returns or throws.
\<close>

definition updateSyncData ::
  "('a \<Rightarrow> 'b \<Rightarrow> 'c \<Rightarrow> string list \<Rightarrow> string list \<Rightarrow> thrown + unit) \<Rightarrow>
   'a \<Rightarrow> 'b \<Rightarrow> 'c \<Rightarrow> jsval \<Rightarrow> jsval \<Rightarrow> logEntry list \<Rightarrow> (thrown + unit) \<times> logEntry list" where
  "updateSyncData originalUpdateSyncData toDeviceMessages otkCounts unusedFallbackKeyAlgs
       changedDeviceLists leftDeviceLists lg =
     (case sanitizeUserIdList changedDeviceLists ''changed device list'' lg of
        (safeChanged, lg1) \<Rightarrow>
     (case sanitizeUserIdList leftDeviceLists ''left device list'' lg1 of
        (safeLeft, lg2) \<Rightarrow>
     (case originalUpdateSyncData toDeviceMessages otkCounts unusedFallbackKeyAlgs
             safeChanged safeLeft of
        Inr r \<Rightarrow> (Inr r, lg2)
      | Inl err \<Rightarrow>
          (let message = messageOf err in
           if includesStr message ''Expect value to be String''
           then (Inr (),
                 warn ''Ignoring malformed device list entries during crypto sync''
                   (Some message) lg2)
           else (Inl err, lg2)))))"

section \<open>Atlas prompt automation: errors, data, the outside world\<close>

text \<open>
  A thrown value is either an \<open>AtlasUnavailableError\<close> with its message, or any other
  value; of the latter only the text \<open>String(err)\<close> is ever used, so it is carried as that
  text. \<open>stringOfErr\<close> is \<open>String(err)\<close> (for an \<open>Error\<close>: name, colon, message).
\<close>

datatype err = AtlasUnavailableError string | OtherFault string

fun stringOfErr :: "err \<Rightarrow> string" where
  "stringOfErr (AtlasUnavailableError m) =
     (if m = '''' then ''AtlasUnavailableError'' else ''AtlasUnavailableError: '' @ m)"
| "stringOfErr (OtherFault d) = d"

fun isAtlasUnavailableError :: "err \<Rightarrow> bool" where
  "isAtlasUnavailableError (AtlasUnavailableError m) = True"
| "isAtlasUnavailableError (OtherFault d) = False"

record atlasPromptResult =
  resultText :: string
  tookMs :: int

record resolvedBrowserConfig =
  enabled :: bool

record resolvedBrowserProfile =
  name :: string
  profileCdpUrl :: "string option"

record browserStatusResult =
  running :: bool
  statusCdpUrl :: "string option"

text \<open>
  The module \<open>getPwAiModule\<close> resolves to (or null): the code tests two of its functions for
  presence and calls the third through an optional call, so each may be absent.
\<close>

record pwAiModule =
  hasCreatePageViaPlaywright :: bool
  hasGetPageForTargetId :: bool
  hasClosePageByTargetIdViaPlaywright :: bool

record pageInfo =
  targetId :: string

text \<open>
  The options of \<open>canUseAtlas\<close> and of \<open>runAtlasPrompt\<close> (fields \<open>config\<close>, \<open>sandboxed\<close>,
  \<open>prompt\<close>, \<open>timeoutMs\<close>, \<open>url\<close>; the prefix keeps the names free for local variables).
\<close>

record 'cfg gateOptions =
  optConfig :: "'cfg option"
  optSandboxed :: "bool option"

record 'cfg promptOptions = "'cfg gateOptions" +
  optPrompt :: string
  optTimeoutMs :: int
  optUrl :: "string option"

text \<open>A locator is a deferred query: \<open>page.locator(sel)\<close>, \<open>.first()\<close>, \<open>.nth(i)\<close>.\<close>

datatype locator = Locator string | First locator | Nth locator nat

text \<open>
  Every call that leaves the module is written to a transcript together with its outcome
  (\<open>Inl\<close>: the promise rejected). The world is the clock \<open>Date.now()\<close> reads, in
  milliseconds, and the transcript so far.
\<close>

datatype event =
    GetPwAiModule "err + pwAiModule option"
  | BrowserStatus string "err + browserStatusResult"
  | BrowserStart string "err + unit"
  | CreatePage string string "err + pageInfo"
  | GetPage string string "err + unit"
  | ClosePage string string "err + unit"
  | WaitForLoadState int "err + unit"
  | WaitFor locator int "err + unit"
  | IsEnabled locator "err + bool"
  | IsVisible locator "err + bool"
  | Click locator "err + unit"
  | Press locator string "err + unit"
  | Count locator "err + nat"
  | Fill locator string int "err + unit"
  | WaitForFunction string nat int "err + unit"
  | InnerText locator "err + string option"
  | WaitForTimeout int "err + unit"
  | LogDebug string

record world =
  now :: int
  trace :: "event list"

text \<open>
  The collaborators the module imports are parameters. A call that takes time answers with
  its outcome and the milliseconds it took, and may depend on everything that happened
  before (the world it is made in). Any of them may throw or reject (\<open>Inl\<close>), as the
  module's own \<open>.catch\<close> handlers and \<open>try\<close> blocks provide for. \<open>waitForTimeout\<close> answers
  with the time it took beyond the time asked for. Profile resolution is synchronous and
  reads only the configuration. Times and timeouts are whole milliseconds.
\<close>

record ('cfg, 'rc) atlasEnv =
  processEnv :: "string \<Rightarrow> string option"
  resolveBrowserConfig :: "'cfg option \<Rightarrow> err + 'rc resolvedBrowserConfig_scheme"
  resolveProfile ::
    "'rc resolvedBrowserConfig_scheme \<Rightarrow> string \<Rightarrow> err + resolvedBrowserProfile option"
  DEFAULT_ATLAS_BROWSER_PROFILE_NAME :: string
  getPwAiModule :: "world \<Rightarrow> (err + pwAiModule option) \<times> nat"
  browserStatus :: "string \<Rightarrow> world \<Rightarrow> (err + browserStatusResult) \<times> nat"
  browserStart :: "string \<Rightarrow> world \<Rightarrow> (err + unit) \<times> nat"
  createPageViaPlaywright :: "string \<Rightarrow> string \<Rightarrow> world \<Rightarrow> (err + pageInfo) \<times> nat"
  getPageForTargetId :: "string \<Rightarrow> string \<Rightarrow> world \<Rightarrow> (err + unit) \<times> nat"
  closePageByTargetIdViaPlaywright :: "string \<Rightarrow> string \<Rightarrow> world \<Rightarrow> (err + unit) \<times> nat"
  waitForLoadState :: "int \<Rightarrow> world \<Rightarrow> (err + unit) \<times> nat"
  waitFor :: "locator \<Rightarrow> int \<Rightarrow> world \<Rightarrow> (err + unit) \<times> nat"
  isEnabled :: "locator \<Rightarrow> world \<Rightarrow> (err + bool) \<times> nat"
  isVisible :: "locator \<Rightarrow> world \<Rightarrow> (err + bool) \<times> nat"
  click :: "locator \<Rightarrow> world \<Rightarrow> (err + unit) \<times> nat"
  press :: "locator \<Rightarrow> string \<Rightarrow> world \<Rightarrow> (err + unit) \<times> nat"
  count :: "locator \<Rightarrow> world \<Rightarrow> (err + nat) \<times> nat"
  fill :: "locator \<Rightarrow> string \<Rightarrow> int \<Rightarrow> world \<Rightarrow> (err + unit) \<times> nat"
  waitForFunction :: "string \<Rightarrow> nat \<Rightarrow> int \<Rightarrow> world \<Rightarrow> (err + unit) \<times> nat"
  innerText :: "locator \<Rightarrow> world \<Rightarrow> (err + string option) \<times> nat"
  waitForTimeout :: "int \<Rightarrow> world \<Rightarrow> (err + unit) \<times> nat"

text \<open>
  An asynchronous step either rejects or resolves to a value, in a new world. \<open>perform\<close>
  makes one outside call: the clock advances by the time it took and the call, with its
  outcome, is appended to the transcript.
\<close>

type_synonym 'a io = "world \<Rightarrow> (err + 'a) \<times> world"

definition perform :: "(err + 'a \<Rightarrow> event) \<Rightarrow> (world \<Rightarrow> (err + 'a) \<times> nat) \<Rightarrow> 'a io" where
  "perform ev call w =
     (case call w of (r, d) \<Rightarrow> (r, w\<lparr>now := now w + int d, trace := trace w @ [ev r]\<rparr>))"

definition resolve :: "'a \<Rightarrow> 'a io" where
  "resolve x w = (Inr x, w)"

definition reject :: "err \<Rightarrow> 'a io" where
  "reject e w = (Inl e, w)"

definition await :: "'a io \<Rightarrow> ('a \<Rightarrow> 'b io) \<Rightarrow> 'b io" where
  "await m k w = (case m w of (Inl e, w') \<Rightarrow> (Inl e, w') | (Inr x, w') \<Rightarrow> k x w')"

text \<open>\<open>p.catch(() => d)\<close>, \<open>try { .. } catch (err) { .. }\<close> and \<open>try { .. } finally { .. }\<close>.\<close>

definition catchDefault :: "'a \<Rightarrow> 'a io \<Rightarrow> 'a io" where
  "catchDefault d m w = (case m w of (Inl e, w') \<Rightarrow> (Inr d, w') | (Inr x, w') \<Rightarrow> (Inr x, w'))"

definition tryCatch :: "'a io \<Rightarrow> (err \<Rightarrow> 'a io) \<Rightarrow> 'a io" where
  "tryCatch m handler w =
     (case m w of (Inl e, w') \<Rightarrow> handler e w' | (Inr x, w') \<Rightarrow> (Inr x, w'))"

definition tryFinally :: "'a io \<Rightarrow> unit io \<Rightarrow> 'a io" where
  "tryFinally m finalizer w =
     (case m w of (r, w') \<Rightarrow>
        (case finalizer w' of (Inl e, w'') \<Rightarrow> (Inl e, w'') | (Inr u, w'') \<Rightarrow> (r, w'')))"

definition logDebug :: "string \<Rightarrow> unit io" where
  "logDebug message w = (Inr (), w\<lparr>trace := trace w @ [LogDebug message]\<rparr>)"

section \<open>Atlas prompt automation: the functions of the module\<close>

definition DEFAULT_ATLAS_CHAT_URL :: string where
  "DEFAULT_ATLAS_CHAT_URL = ''https://chatgpt.com''"

text \<open>Truthiness of an optional string, and \<open>s?.trim() || t?.trim() || ""\<close>.\<close>

definition truthy :: "string option \<Rightarrow> bool" where
  "truthy v = (case v of None \<Rightarrow> False | Some s \<Rightarrow> s \<noteq> '''')"

definition trimOpt :: "string option \<Rightarrow> string option" where
  "trimOpt v = map_option trim v"

definition orElse :: "string option \<Rightarrow> string \<Rightarrow> string" where
  "orElse v d = (case v of None \<Rightarrow> d | Some s \<Rightarrow> if s \<noteq> '''' then s else d)"

definition resolveAtlasProfile ::
  "('cfg, 'rc) atlasEnv \<Rightarrow> 'cfg option \<Rightarrow> err + resolvedBrowserProfile option" where
  "resolveAtlasProfile env cfg =
     (case resolveBrowserConfig env cfg of
        Inl e \<Rightarrow> Inl e
      | Inr resolved \<Rightarrow>
          if \<not> enabled resolved then Inr None
          else (case resolveProfile env resolved (DEFAULT_ATLAS_BROWSER_PROFILE_NAME env) of
                  Inl e \<Rightarrow> Inl e
                | Inr profile \<Rightarrow> Inr profile))"

text \<open>
  \<open>canUseAtlas\<close>: the result type keeps a place for a thrown error, so that "never raises"
  is a property and not an artefact of the type.
\<close>

definition canUseAtlas :: "('cfg, 'rc) atlasEnv \<Rightarrow> 'cfg gateOptions option \<Rightarrow> err + bool" where
  "canUseAtlas env options =
     (if processEnv env ''NODE_ENV'' = Some ''test''
         \<or> truthy (processEnv env ''VITEST'')
         \<or> truthy (processEnv env ''VITEST_WORKER_ID'')
         \<or> truthy (processEnv env ''JEST_WORKER_ID'')
      then Inr False
      else if Option.bind options optSandboxed = Some True then Inr False
      else (case resolveAtlasProfile env (Option.bind options optConfig) of
              Inl e \<Rightarrow> Inr False
            | Inr profile \<Rightarrow> Inr (profile \<noteq> None)))"

definition ensureAtlasCdpUrl :: "('cfg, 'rc) atlasEnv \<Rightarrow> resolvedBrowserProfile \<Rightarrow> string io" where
  "ensureAtlasCdpUrl env profile =
     tryCatch
       (await (perform (BrowserStatus (name profile)) (browserStatus env (name profile)))
          (\<lambda>status0.
        await (if \<not> running status0
               then await (perform (BrowserStart (name profile)) (browserStart env (name profile)))
                      (\<lambda>u. perform (BrowserStatus (name profile))
                              (browserStatus env (name profile)))
               else resolve status0)
          (\<lambda>status.
        let url = orElse (trimOpt (statusCdpUrl status)) (orElse (trimOpt (profileCdpUrl profile)) '''')
        in if url = '''' then reject (AtlasUnavailableError ''Atlas profile has no CDP URL.'')
           else resolve url)))
       (\<lambda>err.
          if isAtlasUnavailableError err then reject err
          else reject (AtlasUnavailableError
                         (''Atlas browser is not reachable: '' @ stringOfErr err)))"

definition selectors :: "string list" where
  \<open>selectors =
     [''textarea#prompt-textarea'',
      ''textarea[data-testid="prompt-textarea"]'',
      ''textarea[placeholder*="Message"]'',
      ''textarea'']\<close>

definition inputNotFound :: err where
  "inputNotFound =
     AtlasUnavailableError
       ''ChatGPT input not found. Open Atlas, sign in to ChatGPT, then try again.''"

text \<open>
  The loop of \<open>findPromptInput\<close> over the selectors still to try. Leaving the loop, by
  \<open>break\<close> or at its end, reaches the \<open>throw\<close> after it.
\<close>

fun findPromptInput_loop ::
  "('cfg, 'rc) atlasEnv \<Rightarrow> int \<Rightarrow> string list \<Rightarrow> locator io" where
  "findPromptInput_loop env deadline [] w = reject inputNotFound w"
| "findPromptInput_loop env deadline (selector # rest) w =
     (let locator = First (Locator selector);
          timeout = min 2500 (max 500 (deadline - now w))
      in if timeout \<le> 0 then reject inputNotFound w
         else (case perform (WaitFor locator timeout) (waitFor env locator timeout) w of
                 (Inl e, w1) \<Rightarrow> findPromptInput_loop env deadline rest w1
               | (Inr u, w1) \<Rightarrow>
                   (case catchDefault False
                           (perform (IsEnabled locator) (isEnabled env locator)) w1 of
                      (Inr True, w2) \<Rightarrow> resolve locator w2
                    | (r, w2) \<Rightarrow> findPromptInput_loop env deadline rest w2)))"

definition findPromptInput :: "('cfg, 'rc) atlasEnv \<Rightarrow> int \<Rightarrow> locator io" where
  "findPromptInput env timeoutMs w =
     (let deadline = now w + max 2000 timeoutMs
      in findPromptInput_loop env deadline selectors w)"

definition clickSend :: "('cfg, 'rc) atlasEnv \<Rightarrow> locator \<Rightarrow> unit io" where
  \<open>clickSend env input =
     (let sendButton = First (Locator ''button[data-testid="send-button"]'')
      in await (catchDefault False (perform (IsVisible sendButton) (isVisible env sendButton)))
           (\<lambda>canClick.
         await (if canClick
                then catchDefault False
                       (perform (IsEnabled sendButton) (isEnabled env sendButton))
                else resolve False)
           (\<lambda>canSend.
         if canSend
         then catchDefault () (perform (Click sendButton) (click env sendButton))
         else catchDefault () (perform (Press input ''Enter'') (press env input ''Enter'')))))\<close>

definition assistantSelector :: string where
  \<open>assistantSelector = ''[data-message-author-role="assistant"]''\<close>

definition waitForAssistantMessage ::
  "('cfg, 'rc) atlasEnv \<Rightarrow> nat \<Rightarrow> int \<Rightarrow> locator io" where
  "waitForAssistantMessage env baselineCount timeoutMs =
     (let selector = assistantSelector;
          messages = Locator selector;
          timeout = max 2000 timeoutMs
      in await (catchDefault ()
                  (perform (WaitForFunction selector baselineCount timeout)
                     (waitForFunction env selector baselineCount timeout)))
           (\<lambda>u.
         await (perform (Count messages) (count env messages))
           (\<lambda>n.
         if n = 0 then reject (AtlasUnavailableError ''No ChatGPT response detected.'')
         else resolve (Nth messages (n - 1)))))"

text \<open>
  One sample of \<open>readStableText\<close>: \<open>(await locator.innerText().catch(() => ""))?.trim() ?? ""\<close>,
  and the 400 ms pause: when it resolves, the time asked for has passed, and whatever the
  timer added.
\<close>

definition sampleText :: "err + string option \<Rightarrow> string" where
  "sampleText r = (case r of Inl e \<Rightarrow> '''' | Inr None \<Rightarrow> '''' | Inr (Some s) \<Rightarrow> trim s)"

definition pause :: "('cfg, 'rc) atlasEnv \<Rightarrow> int \<Rightarrow> unit io" where
  "pause env ms w =
     (case waitForTimeout env ms w of
        (r, extra) \<Rightarrow>
          (r, w\<lparr>now := now w + (if isl r then 0 else max 0 ms) + int extra,
                trace := trace w @ [WaitForTimeout ms r]\<rparr>))"

function readStableText_loop ::
  "('cfg, 'rc) atlasEnv \<Rightarrow> locator \<Rightarrow> int \<Rightarrow> int \<Rightarrow> string \<Rightarrow> nat \<Rightarrow> string io" where
  "readStableText_loop env locator start timeoutMs lastText stableTicks w =
     (if now w - start < timeoutMs
      then (let sampled = perform (InnerText locator) (innerText env locator) w;
                text = sampleText (fst sampled);
                stableTicks' = (if text \<noteq> '''' \<and> text = lastText then stableTicks + 1 else 0)
            in if stableTicks' \<ge> 3 \<and> text \<noteq> '''' then resolve text (snd sampled)
               else (let paused = pause env 400 (snd sampled)
                     in case fst paused of
                          Inl e \<Rightarrow> (Inl e, snd paused)
                        | Inr u \<Rightarrow>
                            readStableText_loop env locator start timeoutMs text stableTicks'
                              (snd paused)))
      else resolve lastText w)"
  by pat_completeness auto

termination
proof (relation "measure (\<lambda>(env, locator, start, timeoutMs, lastText, stableTicks, w).
                   nat (timeoutMs - (now w - start)))", goal_cases)
  case 1
  show ?case by simp
next
  case (2 env locator start timeoutMs lastText stableTicks w sampled sample stableTicks' paused u)
  have a: "now w \<le> now (snd sampled)"
    using 2(2) by (simp add: perform_def split: prod.splits)
  have "isl (fst (pause env 400 (snd sampled))) = False"
    using 2(6,7) by (cases "fst paused") auto
  then have b: "now (snd sampled) + 400 \<le> now (snd paused)"
    unfolding 2(6) by (simp add: pause_def split: prod.splits)
  from a b 2(1) show ?case by simp
qed

definition readStableText :: "('cfg, 'rc) atlasEnv \<Rightarrow> locator \<Rightarrow> int \<Rightarrow> string io" where
  "readStableText env locator timeoutMs w =
     (let start = now w in readStableText_loop env locator start timeoutMs '''' 0 w)"

text \<open>
  \<open>runAtlasPrompt\<close>. \<open>promptSteps\<close> is the body of its \<open>try\<close> block, \<open>promptFailed\<close> its
  \<open>catch\<close> clause and \<open>closePage\<close> its \<open>finally\<close> clause, whose optional call does nothing
  when the module has no \<open>closePageByTargetIdViaPlaywright\<close>.
\<close>

definition promptSteps ::
  "('cfg, 'rc) atlasEnv \<Rightarrow> 'cfg promptOptions \<Rightarrow> string \<Rightarrow> pageInfo \<Rightarrow> int \<Rightarrow>
   atlasPromptResult io" where
  "promptSteps env options cdpUrl info start =
     await (perform (GetPage cdpUrl (targetId info))
              (getPageForTargetId env cdpUrl (targetId info)))
       (\<lambda>page.
     await (catchDefault () (perform (WaitForLoadState 15000) (waitForLoadState env 15000)))
       (\<lambda>u.
     await (findPromptInput env (optTimeoutMs options))
       (\<lambda>input.
     let assistantMessages = Locator assistantSelector in
     await (perform (Count assistantMessages) (count env assistantMessages))
       (\<lambda>baselineCount.
     await (perform (Fill input (optPrompt options) (min (optTimeoutMs options) 10000))
              (fill env input (optPrompt options) (min (optTimeoutMs options) 10000)))
       (\<lambda>u.
     await (clickSend env input)
       (\<lambda>u.
     await (waitForAssistantMessage env baselineCount (optTimeoutMs options))
       (\<lambda>message.
     await (readStableText env message (optTimeoutMs options))
       (\<lambda>answer.
     if answer = '''' then reject (AtlasUnavailableError ''ChatGPT returned an empty response.'')
     else (\<lambda>w. resolve \<lparr>resultText = answer, tookMs = now w - start\<rparr> w)))))))))"

definition promptFailed :: "err \<Rightarrow> 'a io" where
  "promptFailed err =
     await (logDebug (''Atlas prompt failed: '' @ stringOfErr err))
       (\<lambda>u.
     if isAtlasUnavailableError err then reject err
     else reject (AtlasUnavailableError (''Atlas prompt failed: '' @ stringOfErr err)))"

definition closePage ::
  "('cfg, 'rc) atlasEnv \<Rightarrow> pwAiModule \<Rightarrow> string \<Rightarrow> pageInfo \<Rightarrow> unit io" where
  "closePage env pwModule cdpUrl info =
     (if hasClosePageByTargetIdViaPlaywright pwModule
      then catchDefault ()
             (perform (ClosePage cdpUrl (targetId info))
                (closePageByTargetIdViaPlaywright env cdpUrl (targetId info)))
      else resolve ())"

definition playwrightMissing :: err where
  "playwrightMissing = AtlasUnavailableError ''Playwright is not available for Atlas automation.''"

definition runAtlasPrompt ::
  "('cfg, 'rc) atlasEnv \<Rightarrow> 'cfg promptOptions \<Rightarrow> atlasPromptResult io" where
  "runAtlasPrompt env options =
     (if optSandboxed options = Some True
      then reject (AtlasUnavailableError ''Atlas is not available in sandboxed sessions.'')
      else
        await (\<lambda>w. (resolveAtlasProfile env (optConfig options), w))
          (\<lambda>found.
        case found of
          None \<Rightarrow> reject (AtlasUnavailableError ''Atlas profile is not configured.'')
        | Some profile \<Rightarrow>
        await (perform GetPwAiModule (getPwAiModule env))
          (\<lambda>loaded.
        case loaded of
          None \<Rightarrow> reject playwrightMissing
        | Some pwModule \<Rightarrow>
        if \<not> hasCreatePageViaPlaywright pwModule \<or> \<not> hasGetPageForTargetId pwModule
        then reject playwrightMissing
        else
        await (ensureAtlasCdpUrl env profile)
          (\<lambda>cdpUrl.
        let chatUrl = orElse (trimOpt (optUrl options)) DEFAULT_ATLAS_CHAT_URL in
        (\<lambda>w.
        let start = now w in
        await (perform (CreatePage cdpUrl chatUrl) (createPageViaPlaywright env cdpUrl chatUrl))
          (\<lambda>info.
        tryFinally
          (tryCatch (promptSteps env options cdpUrl info start) promptFailed)
          (closePage env pwModule cdpUrl info)) w)))))"

section \<open>Reading the transcript\<close>

text \<open>
  The pages a transcript shows opened (connection URL and target id of each successful
  \<open>createPageViaPlaywright\<close>), the pages it shows a close call for, the modules it shows
  loaded, the trimmed texts it shows sampled and the locators it shows waited for.
\<close>

fun openedBy :: "event \<Rightarrow> (string \<times> string) list" where
  "openedBy (CreatePage cdp u (Inr info)) = [(cdp, targetId info)]"
| "openedBy e = []"

fun closedBy :: "event \<Rightarrow> (string \<times> string) list" where
  "closedBy (ClosePage cdp tid r) = [(cdp, tid)]"
| "closedBy e = []"

fun loadedBy :: "event \<Rightarrow> pwAiModule list" where
  "loadedBy (GetPwAiModule (Inr (Some m))) = [m]"
| "loadedBy e = []"

fun sampledBy :: "event \<Rightarrow> string list" where
  "sampledBy (InnerText l r) = [sampleText r]"
| "sampledBy e = []"

fun waitedBy :: "event \<Rightarrow> (locator \<times> int) list" where
  "waitedBy (WaitFor l t r) = [(l, t)]"
| "waitedBy e = []"

definition opened :: "event list \<Rightarrow> (string \<times> string) list" where
  "opened evs = concat (map openedBy evs)"

definition closed :: "event list \<Rightarrow> (string \<times> string) list" where
  "closed evs = concat (map closedBy evs)"

definition loaded :: "event list \<Rightarrow> pwAiModule list" where
  "loaded evs = concat (map loadedBy evs)"

definition samples :: "event list \<Rightarrow> string list" where
  "samples evs = concat (map sampledBy evs)"

definition waited :: "event list \<Rightarrow> (locator \<times> int) list" where
  "waited evs = concat (map waitedBy evs)"

text \<open>The events a step added to the transcript of the world it started in.\<close>

definition added :: "world \<Rightarrow> world \<Rightarrow> event list" where
  "added w w' = drop (length (trace w)) (trace w')"

text \<open>
  The same non-empty text on the last four samples: what the stability counter of
  \<open>readStableText\<close> waits for. \<open>ticksAfter\<close> is the counter after a run of samples, the most
  recent first, and \<open>latest\<close> the text the loop remembers.
\<close>

definition stableSamples :: "string list \<Rightarrow> bool" where
  "stableSamples ss =
     (4 \<le> length ss \<and> last ss \<noteq> '''' \<and> drop (length ss - 4) ss = replicate 4 (last ss))"

definition latest :: "string list \<Rightarrow> string" where
  "latest recent = (case recent of [] \<Rightarrow> '''' | t # older \<Rightarrow> t)"

fun ticksAfter :: "string list \<Rightarrow> nat" where
  "ticksAfter [] = 0"
| "ticksAfter (t # older) = (if t \<noteq> '''' \<and> t = latest older then ticksAfter older + 1 else 0)"

text \<open>
  The shape of what \<open>readStableText\<close> adds to the transcript: samples of the one
  locator, each but the last followed by a pause of 400 ms.
\<close>

fun spacedSamples :: "locator \<Rightarrow> event list \<Rightarrow> bool" where
  "spacedSamples loc [] = True"
| "spacedSamples loc [e] = (case e of InnerText l r \<Rightarrow> l = loc | other \<Rightarrow> False)"
| "spacedSamples loc (e # p # rest) =
     ((case e of InnerText l r \<Rightarrow> l = loc | other \<Rightarrow> False)
      \<and> (case p of WaitForTimeout ms r \<Rightarrow> ms = 400 | other \<Rightarrow> False)
      \<and> spacedSamples loc rest)"

text \<open>
  A step is quiet when all it adds to the transcript are calls that neither load the
  module nor open or close a page.
\<close>

definition quietEvent :: "event \<Rightarrow> bool" where
  "quietEvent e = (openedBy e = [] \<and> closedBy e = [] \<and> loadedBy e = [])"

definition quietly :: "'a io \<Rightarrow> bool" where
  "quietly m = (\<forall>w. \<exists>evs. trace (snd (m w)) = trace w @ evs \<and> list_all quietEvent evs)"

section \<open>A concrete browser\<close>

text \<open>
  An environment in which everything works, for the examples: no test marker is set, the
  profile resolves, the browser runs, each selector is visible and enabled, and the
  assistant's message reads, sample after sample, as the list \<open>script\<close> says (and as its
  last entry from then on).
\<close>

fun isInnerText :: "event \<Rightarrow> bool" where
  "isInnerText (InnerText l r) = True"
| "isInnerText e = False"

definition scripted :: "string list \<Rightarrow> world \<Rightarrow> string option" where
  "scripted script w =
     (let n = length (filter isInnerText (trace w))
      in if script = [] then None
         else if n < length script then Some (script ! n) else Some (last script))"

definition browserEnv :: "string list \<Rightarrow> (unit, unit) atlasEnv" where
  "browserEnv script =
     \<lparr> processEnv = (\<lambda>k. None),
       resolveBrowserConfig = (\<lambda>cfg. Inr \<lparr>enabled = True\<rparr>),
       resolveProfile =
         (\<lambda>resolved nm. Inr (Some \<lparr>name = nm, profileCdpUrl = Some ''ws://127.0.0.1:9222''\<rparr>)),
       DEFAULT_ATLAS_BROWSER_PROFILE_NAME = ''atlas'',
       getPwAiModule =
         (\<lambda>w. (Inr (Some \<lparr>hasCreatePageViaPlaywright = True, hasGetPageForTargetId = True,
                             hasClosePageByTargetIdViaPlaywright = True\<rparr>), 1)),
       browserStatus =
         (\<lambda>nm w. (Inr \<lparr>running = True, statusCdpUrl = Some '' ws://127.0.0.1:9222 ''\<rparr>, 5)),
       browserStart = (\<lambda>nm w. (Inr (), 900)),
       createPageViaPlaywright = (\<lambda>cdp u w. (Inr \<lparr>targetId = ''T1''\<rparr>, 120)),
       getPageForTargetId = (\<lambda>cdp tid w. (Inr (), 3)),
       closePageByTargetIdViaPlaywright = (\<lambda>cdp tid w. (Inr (), 8)),
       waitForLoadState = (\<lambda>t w. (Inr (), 300)),
       waitFor = (\<lambda>l t w. (Inr (), 40)),
       isEnabled = (\<lambda>l w. (Inr True, 2)),
       isVisible = (\<lambda>l w. (Inr True, 2)),
       click = (\<lambda>l w. (Inr (), 15)),
       press = (\<lambda>l k w. (Inr (), 15)),
       count = (\<lambda>l w. (Inr 1, 2)),
       fill = (\<lambda>l s t w. (Inr (), 30)),
       waitForFunction = (\<lambda>s n t w. (Inr (), 700)),
       innerText = (\<lambda>l w. (Inr (scripted script w), 4)),
       waitForTimeout = (\<lambda>ms w. (Inr (), 1)) \<rparr>"

text \<open>
  A page on which the first selector never becomes visible (its wait times out 100 ms after
  the time asked for), and one on which no selector ever does.
\<close>

definition slowPageEnv :: "(unit, unit) atlasEnv" where
  "slowPageEnv =
     (browserEnv [])
       \<lparr>waitFor :=
          (\<lambda>l t w. if l = First (Locator (selectors ! 0))
                   then (Inl (OtherFault ''TimeoutError: locator.waitFor: Timeout exceeded''),
                         nat t + 100)
                   else (Inr (), 40))\<rparr>"

definition neverVisibleEnv :: "(unit, unit) atlasEnv" where
  "neverVisibleEnv =
     (browserEnv [])
       \<lparr>waitFor :=
          (\<lambda>l t w. (Inl (OtherFault ''TimeoutError: locator.waitFor: Timeout exceeded''),
                    nat t + 100))\<rparr>"

text \<open>
  A page whose answer settles on "Hello"; the same with a close call that rejects; the same
  with a module that has no close function; a browser that is not running, will not start
  and has no connection URL, in its status or in its profile; and a browser whose
  connection is refused when the page is opened.
\<close>

definition helloEnv :: "(unit, unit) atlasEnv" where
  "helloEnv = browserEnv [''He'', ''Hello'', ''Hello'', ''Hello'', ''Hello'']"

definition closeFailsEnv :: "(unit, unit) atlasEnv" where
  "closeFailsEnv =
     helloEnv
       \<lparr>closePageByTargetIdViaPlaywright :=
          (\<lambda>cdp tid w. (Inl (OtherFault ''Error: Target closed''), 8))\<rparr>"

definition noCloseEnv :: "(unit, unit) atlasEnv" where
  "noCloseEnv =
     helloEnv
       \<lparr>getPwAiModule :=
          (\<lambda>w. (Inr (Some \<lparr>hasCreatePageViaPlaywright = True, hasGetPageForTargetId = True,
                              hasClosePageByTargetIdViaPlaywright = False\<rparr>), 1))\<rparr>"

definition unreachableEnv :: "(unit, unit) atlasEnv" where
  "unreachableEnv =
     helloEnv
       \<lparr>browserStatus := (\<lambda>nm w. (Inr \<lparr>running = False, statusCdpUrl = Some ''  ''\<rparr>, 5)),
        resolveProfile := (\<lambda>resolved nm. Inr (Some \<lparr>name = nm, profileCdpUrl = None\<rparr>))\<rparr>"

definition refusedEnv :: "(unit, unit) atlasEnv" where
  "refusedEnv =
     helloEnv
       \<lparr>createPageViaPlaywright :=
          (\<lambda>cdp u w. (Inl (OtherFault ''Error: connect ECONNREFUSED 127.0.0.1:9222''), 30))\<rparr>"

definition theMessage :: locator where
  "theMessage = Nth (Locator assistantSelector) 0"

definition world0 :: world where
  "world0 = \<lparr>now = 1000, trace = []\<rparr>"

definition askHello :: "unit promptOptions" where
  "askHello = \<lparr>optConfig = Some (), optSandboxed = None,
               optPrompt = ''Say hello'', optTimeoutMs = 5000, optUrl = None\<rparr>"

section \<open>Properties of the sync payload sanitizer\<close>

lemma startsWith_iff: "startsWith s needle \<longleftrightarrow> (\<exists>post. s = needle @ post)"
  by (induction s needle rule: startsWith.induct) auto

lemma includesStr_iff: "includesStr s needle \<longleftrightarrow> (\<exists>pre post. s = pre @ needle @ post)"
proof (induction s)
  case Nil
  then show ?case by simp
next
  case (Cons d ds)
  show ?case
  proof
    assume "includesStr (d # ds) needle"
    then consider "startsWith (d # ds) needle" | "includesStr ds needle" by auto
    then show "\<exists>pre post. d # ds = pre @ needle @ post"
    proof cases
      case 1
      then obtain post where "d # ds = needle @ post" by (auto simp: startsWith_iff)
      then have "d # ds = [] @ needle @ post" by simp
      then show ?thesis by blast
    next
      case 2
      then obtain pre post where "ds = pre @ needle @ post" using Cons.IH by blast
      then have "d # ds = (d # pre) @ needle @ post" by simp
      then show ?thesis by blast
    qed
  next
    assume "\<exists>pre post. d # ds = pre @ needle @ post"
    then obtain pre post where eq: "d # ds = pre @ needle @ post" by blast
    show "includesStr (d # ds) needle"
    proof (cases pre)
      case Nil
      with eq have "startsWith (d # ds) needle" by (auto simp: startsWith_iff)
      then show ?thesis by simp
    next
      case (Cons p ps)
      with eq have "ds = ps @ needle @ post" by simp
      then have "includesStr ds needle" using Cons.IH by blast
      then show ?thesis by simp
    qed
  qed
qed

lemma keepEntry_iff: "keepEntry v \<longleftrightarrow> (\<exists>s. v = JString s \<and> trim s \<noteq> '''')"
  by (cases v) auto

lemma map_JString_stringsOf: "map JString (stringsOf (filter keepEntry vs)) = filter keepEntry vs"
proof (induction vs)
  case Nil
  then show ?case by simp
next
  case (Cons v vs)
  then show ?case by (cases v) auto
qed

lemma length_stringsOf_kept: "length (stringsOf (filter keepEntry vs)) = length (filter keepEntry vs)"
proof -
  have "length (map JString (stringsOf (filter keepEntry vs))) = length (filter keepEntry vs)"
    by (simp only: map_JString_stringsOf)
  then show ?thesis by simp
qed

lemma dropped_count:
  "length vs - length (filter keepEntry vs) = length (filter (\<lambda>v. \<not> keepEntry v) vs)"
  using sum_length_filter_compl [of keepEntry vs] by simp

text \<open>
  C7. For an array of M entries of which N are not strings that stay non-empty after
  trimming, the sanitizer returns exactly the other entries, in order (so M - N of them),
  and appends exactly one warning, which states N, when N > 0, and none when N = 0.
\<close>

theorem sanitizeUserIdList_array:
  "fst (sanitizeUserIdList (JArray entries) label lg)
     = stringsOf (filter keepEntry entries)
   \<and> map JString (fst (sanitizeUserIdList (JArray entries) label lg))
     = filter (\<lambda>v. \<exists>s. v = JString s \<and> trim s \<noteq> '''') entries
   \<and> length (fst (sanitizeUserIdList (JArray entries) label lg))
     = length entries - length (filter (\<lambda>v. \<not> (\<exists>s. v = JString s \<and> trim s \<noteq> '''')) entries)
   \<and> snd (sanitizeUserIdList (JArray entries) label lg)
     = (if 0 < length (filter (\<lambda>v. \<not> (\<exists>s. v = JString s \<and> trim s \<noteq> '''')) entries)
        then lg @ [(''Dropping ''
                    @ showNat (length (filter (\<lambda>v. \<not> (\<exists>s. v = JString s \<and> trim s \<noteq> '''')) entries))
                    @ '' invalid '' @ label @ '' entries from sync payload'', None)]
        else lg)"
proof -
  have k: "keepEntry = (\<lambda>v. \<exists>s. v = JString s \<and> trim s \<noteq> '''')"
    by (rule ext) (rule keepEntry_iff)
  have le: "length (filter keepEntry entries) \<le> length entries" by simp
  have d: "length entries - length (filter keepEntry entries)
             = length (filter (\<lambda>v. \<not> keepEntry v) entries)"
    by (rule dropped_count)
  have f: "fst (sanitizeUserIdList (JArray entries) label lg) = stringsOf (filter keepEntry entries)"
    by (simp add: sanitizeUserIdList_def Let_def)
  have s: "snd (sanitizeUserIdList (JArray entries) label lg)
             = (if 0 < length (filter (\<lambda>v. \<not> keepEntry v) entries)
                then lg @ [(''Dropping '' @ showNat (length (filter (\<lambda>v. \<not> keepEntry v) entries))
                            @ '' invalid '' @ label @ '' entries from sync payload'', None)]
                else lg)"
  proof (cases "length (filter keepEntry entries) = length entries")
    case True
    with d have "length (filter (\<lambda>v. \<not> keepEntry v) entries) = 0" by simp
    with True show ?thesis by (simp add: sanitizeUserIdList_def Let_def)
  next
    case False
    with le d have "0 < length (filter (\<lambda>v. \<not> keepEntry v) entries)" by linarith
    with False d show ?thesis by (simp add: sanitizeUserIdList_def Let_def warn_def)
  qed
  have l: "length (fst (sanitizeUserIdList (JArray entries) label lg))
             = length entries - length (filter (\<lambda>v. \<not> keepEntry v) entries)"
  proof -
    from d le have "length (filter keepEntry entries)
                      = length entries - length (filter (\<lambda>v. \<not> keepEntry v) entries)"
      by linarith
    then show ?thesis by (simp only: f length_stringsOf_kept)
  qed
  have m: "map JString (fst (sanitizeUserIdList (JArray entries) label lg)) = filter keepEntry entries"
    by (simp only: f map_JString_stringsOf)
  show ?thesis using f m l s unfolding k by blast
qed

theorem sanitizeUserIdList_array_witness:
  "fst (sanitizeUserIdList
          (JArray [JString ''@a:x.org'', JNumber 7, JString ''  '', JNull, JString ''@b:x.org''])
          ''changed device list'' [])
     = [''@a:x.org'', ''@b:x.org'']
   \<and> snd (sanitizeUserIdList
          (JArray [JString ''@a:x.org'', JNumber 7, JString ''  '', JNull, JString ''@b:x.org''])
          ''changed device list'' [])
     = [(''Dropping 3 invalid changed device list entries from sync payload'', None)]
   \<and> sanitizeUserIdList (JArray [JString ''@a:x.org'']) ''left device list'' []
     = ([''@a:x.org''], [])"
proof -
  have t: "trim ''@a:x.org'' = ''@a:x.org''" "trim ''@b:x.org'' = ''@b:x.org''" "trim ''  '' = ''''"
    by (simp_all add: trim_def isWhiteSpace_def)
  have n: "showNat (Suc (Suc (Suc 0))) = ''3''" by (simp add: showNat.simps digitChar_def)
  note a = sanitizeUserIdList_array
    [of "[JString ''@a:x.org'', JNumber 7, JString ''  '', JNull, JString ''@b:x.org'']"
        "''changed device list''" "[]"]
  note b = sanitizeUserIdList_array [of "[JString ''@a:x.org'']" "''left device list''" "[]"]
  have 1: "fst (sanitizeUserIdList
          (JArray [JString ''@a:x.org'', JNumber 7, JString ''  '', JNull, JString ''@b:x.org''])
          ''changed device list'' []) = [''@a:x.org'', ''@b:x.org'']"
    using a by (simp add: t)
  have 2: "snd (sanitizeUserIdList
          (JArray [JString ''@a:x.org'', JNumber 7, JString ''  '', JNull, JString ''@b:x.org''])
          ''changed device list'' [])
     = [(''Dropping 3 invalid changed device list entries from sync payload'', None)]"
    using a by (simp add: t n)
  have 3: "sanitizeUserIdList (JArray [JString ''@a:x.org'']) ''left device list'' []
     = ([''@a:x.org''], [])"
    using b by (simp add: t prod_eq_iff)
  from 1 2 3 show ?thesis by blast
qed

text \<open>
  C8, as stated, fails for \<open>null\<close> and for an absent list: the guard \<open>input == null\<close> returns
  the empty list before any warning is written.
\<close>

theorem sanitizeUserIdList_null_counterexample:
  "sanitizeUserIdList JNull ''changed device list'' [] = ([], [])
   \<and> sanitizeUserIdList JUndefined ''left device list'' [] = ([], [])"
  by (simp add: sanitizeUserIdList_def)

text \<open>
  C8, amended. For every input that is not an array the sanitizer returns the empty list
  (the model has no error outcome: nothing in the function throws); it appends one warning,
  naming the label and the \<open>typeof\<close> of the input, exactly when the input is neither \<open>null\<close>
  nor \<open>undefined\<close>, and no warning when it is.
\<close>

theorem sanitizeUserIdList_non_array:
  assumes "\<forall>entries. input \<noteq> JArray entries"
  shows "sanitizeUserIdList input label lg =
           ([], if input = JNull \<or> input = JUndefined then lg
                else lg @ [(''Expected '' @ label @ '' list to be an array, got '' @ typeof input,
                            None)])"
  using assms by (cases input) (simp_all add: sanitizeUserIdList_def warn_def)

theorem sanitizeUserIdList_non_array_witness:
  "sanitizeUserIdList (JString ''@a:x.org'') ''changed device list'' []
     = ([], [(''Expected changed device list list to be an array, got string'', None)])
   \<and> sanitizeUserIdList JObject ''left device list'' []
     = ([], [(''Expected left device list list to be an array, got object'', None)])
   \<and> sanitizeUserIdList JNull ''left device list'' [(''earlier'', None)]
     = ([], [(''earlier'', None)])"
proof -
  have 1: "\<forall>entries. JString ''@a:x.org'' \<noteq> JArray entries" by simp
  have 2: "\<forall>entries. JObject \<noteq> JArray entries" by simp
  have 3: "\<forall>entries. JNull \<noteq> JArray entries" by simp
  show ?thesis
    using sanitizeUserIdList_non_array [OF 1, of "''changed device list''" "[]"]
          sanitizeUserIdList_non_array [OF 2, of "''left device list''" "[]"]
          sanitizeUserIdList_non_array [OF 3, of "''left device list''" "[(''earlier'', None)]"]
    by simp
qed

text \<open>
  C9. The wrapper passes the sanitized lists to the wrapped call. When that call throws a
  value whose message (the string itself, or the message of an \<open>Error\<close>) contains
  "Expect value to be String", the wrapper writes one warning and returns normally; every
  other thrown value is thrown on, the same value, with no warning of the wrapper's; a
  normal return is passed through.
\<close>

theorem updateSyncData_swallows_signature:
  assumes "sanitizeUserIdList changedDeviceLists ''changed device list'' lg = (safeChanged, lg1)"
    and "sanitizeUserIdList leftDeviceLists ''left device list'' lg1 = (safeLeft, lg2)"
  shows "updateSyncData original toDeviceMessages otkCounts unusedFallbackKeyAlgs
           changedDeviceLists leftDeviceLists lg =
         (case original toDeviceMessages otkCounts unusedFallbackKeyAlgs safeChanged safeLeft of
            Inr r \<Rightarrow> (Inr r, lg2)
          | Inl err \<Rightarrow>
              if \<exists>pre post. messageOf err = pre @ ''Expect value to be String'' @ post
              then (Inr (),
                    lg2 @ [(''Ignoring malformed device list entries during crypto sync'',
                            Some (messageOf err))])
              else (Inl err, lg2))"
  using assms
  by (simp add: updateSyncData_def Let_def warn_def includesStr_iff split: sum.splits)

theorem updateSyncData_swallows_signature_witness:
  "updateSyncData
      (\<lambda>a b c changed left. Inl (ThrownError ''Error: Expect value to be String, got Null''))
      () () () (JArray [JString ''@a:x.org'']) JNull []
     = (Inr (), [(''Ignoring malformed device list entries during crypto sync'',
                  Some ''Error: Expect value to be String, got Null'')])
   \<and> updateSyncData
      (\<lambda>a b c changed left. Inl (ThrownError ''M_LIMIT_EXCEEDED''))
      () () () (JArray [JString ''@a:x.org'']) JNull []
     = (Inl (ThrownError ''M_LIMIT_EXCEEDED''), [])
   \<and> updateSyncData
      (\<lambda>a b c changed left. if changed = [''@a:x.org''] \<and> left = [] then Inr () else Inl ThrownOther)
      () () () (JArray [JString ''@a:x.org'', JNumber 3]) JNull []
     = (Inr (), [(''Dropping 1 invalid changed device list entries from sync payload'', None)])"
proof -
  have t: "trim ''@a:x.org'' = ''@a:x.org''"
    by (simp add: trim_def isWhiteSpace_def)
  have n: "showNat (Suc 0) = ''1''" by (simp add: showNat.simps digitChar_def)
  have c: "sanitizeUserIdList (JArray [JString ''@a:x.org'']) ''changed device list'' []
             = ([''@a:x.org''], [])"
    by (simp add: sanitizeUserIdList_def t)
  have c': "sanitizeUserIdList (JArray [JString ''@a:x.org'', JNumber 3]) ''changed device list'' []
             = ([''@a:x.org''],
                [(''Dropping 1 invalid changed device list entries from sync payload'', None)])"
    by (simp add: sanitizeUserIdList_def t n warn_def)
  have l: "sanitizeUserIdList JNull ''left device list'' lg = ([], lg)" for lg
    by (simp add: sanitizeUserIdList_def)
  have yes: "\<exists>pre post. ''Error: Expect value to be String, got Null''
               = pre @ ''Expect value to be String'' @ post"
    by (rule exI [of _ "''Error: ''"], rule exI [of _ "'', got Null''"]) simp
  have no: "\<not> (\<exists>pre post. ''M_LIMIT_EXCEEDED'' = pre @ ''Expect value to be String'' @ post)"
    using includesStr_iff [of "''M_LIMIT_EXCEEDED''" "''Expect value to be String''"] by simp
  show ?thesis
    using updateSyncData_swallows_signature [OF c l,
            of "\<lambda>a b c changed left. Inl (ThrownError ''Error: Expect value to be String, got Null'')"
               "()" "()" "()"]
          updateSyncData_swallows_signature [OF c l,
            of "\<lambda>a b c changed left. Inl (ThrownError ''M_LIMIT_EXCEEDED'')" "()" "()" "()"]
          updateSyncData_swallows_signature [OF c' l,
            of "\<lambda>a b c changed left. if changed = [''@a:x.org''] \<and> left = [] then Inr () else Inl ThrownOther"
               "()" "()" "()"]
          yes no
    by simp
qed

section \<open>Properties of the availability gate\<close>

lemma resolveAtlasProfile_throws:
  "(\<exists>e. resolveAtlasProfile env cfg = Inl e) \<longleftrightarrow>
     (case resolveBrowserConfig env cfg of
        Inl e \<Rightarrow> True
      | Inr resolved \<Rightarrow>
          enabled resolved
          \<and> isl (resolveProfile env resolved (DEFAULT_ATLAS_BROWSER_PROFILE_NAME env)))"
  by (auto simp: resolveAtlasProfile_def isl_def split: sum.splits)

text \<open>
  C10. \<open>canUseAtlas\<close> answers false whenever a test-environment marker is set
  (\<open>NODE_ENV\<close> is "test", or one of \<open>VITEST\<close>, \<open>VITEST_WORKER_ID\<close>, \<open>JEST_WORKER_ID\<close> has a
  non-empty value) or the caller declares itself sandboxed, whatever the configuration,
  also one whose resolution would throw; it never raises; and when profile resolution
  throws it answers false.
\<close>

theorem canUseAtlas_never_raises:
  "((processEnv env ''NODE_ENV'' = Some ''test''
      \<or> (\<exists>v. processEnv env ''VITEST'' = Some v \<and> v \<noteq> '''')
      \<or> (\<exists>v. processEnv env ''VITEST_WORKER_ID'' = Some v \<and> v \<noteq> '''')
      \<or> (\<exists>v. processEnv env ''JEST_WORKER_ID'' = Some v \<and> v \<noteq> '''')
      \<or> (\<exists>opts. options = Some opts \<and> optSandboxed opts = Some True))
     \<longrightarrow> canUseAtlas env options = Inr False)
   \<and> (\<exists>answer. canUseAtlas env options = Inr answer)
   \<and> ((\<exists>e. resolveAtlasProfile env (Option.bind options optConfig) = Inl e)
     \<longrightarrow> canUseAtlas env options = Inr False)"
proof (intro conjI impI)
  assume "processEnv env ''NODE_ENV'' = Some ''test''
      \<or> (\<exists>v. processEnv env ''VITEST'' = Some v \<and> v \<noteq> '''')
      \<or> (\<exists>v. processEnv env ''VITEST_WORKER_ID'' = Some v \<and> v \<noteq> '''')
      \<or> (\<exists>v. processEnv env ''JEST_WORKER_ID'' = Some v \<and> v \<noteq> '''')
      \<or> (\<exists>opts. options = Some opts \<and> optSandboxed opts = Some True)"
  then show "canUseAtlas env options = Inr False"
    by (auto simp: canUseAtlas_def truthy_def)
next
  show "\<exists>answer. canUseAtlas env options = Inr answer"
    by (cases "resolveAtlasProfile env (Option.bind options optConfig)")
       (auto simp: canUseAtlas_def)
next
  assume "\<exists>e. resolveAtlasProfile env (Option.bind options optConfig) = Inl e"
  then show "canUseAtlas env options = Inr False"
    by (auto simp: canUseAtlas_def)
qed

theorem canUseAtlas_never_raises_witness:
  "canUseAtlas
     ((browserEnv [])\<lparr>processEnv := (\<lambda>k. if k = ''VITEST'' then Some ''true'' else None)\<rparr>)
     (Some \<lparr>optConfig = Some (), optSandboxed = None\<rparr>) = Inr False
   \<and> canUseAtlas (browserEnv []) (Some \<lparr>optConfig = Some (), optSandboxed = Some True\<rparr>)
       = Inr False
   \<and> canUseAtlas
       ((browserEnv [])\<lparr>resolveBrowserConfig := (\<lambda>cfg. Inl (OtherFault ''Error: bad port''))\<rparr>)
       None = Inr False
   \<and> canUseAtlas (browserEnv []) None = Inr True"
proof -
  have 1: "canUseAtlas
     ((browserEnv [])\<lparr>processEnv := (\<lambda>k. if k = ''VITEST'' then Some ''true'' else None)\<rparr>)
     (Some \<lparr>optConfig = Some (), optSandboxed = None\<rparr>) = Inr False"
    using canUseAtlas_never_raises
      [of "(browserEnv [])\<lparr>processEnv := (\<lambda>k. if k = ''VITEST'' then Some ''true'' else None)\<rparr>"
          "Some \<lparr>optConfig = Some (), optSandboxed = None\<rparr>"]
    by simp
  have 2: "canUseAtlas (browserEnv []) (Some \<lparr>optConfig = Some (), optSandboxed = Some True\<rparr>)
       = Inr False"
    using canUseAtlas_never_raises
      [of "browserEnv []" "Some \<lparr>optConfig = Some (), optSandboxed = Some True\<rparr>"]
    by simp
  have 3: "canUseAtlas
       ((browserEnv [])\<lparr>resolveBrowserConfig := (\<lambda>cfg. Inl (OtherFault ''Error: bad port''))\<rparr>)
       None = Inr False"
    using canUseAtlas_never_raises
      [of "(browserEnv [])\<lparr>resolveBrowserConfig := (\<lambda>cfg. Inl (OtherFault ''Error: bad port''))\<rparr>"
          None]
    by (simp add: resolveAtlasProfile_def)
  have 4: "canUseAtlas (browserEnv []) None = Inr True"
    by (simp add: canUseAtlas_def browserEnv_def truthy_def resolveAtlasProfile_def)
  from 1 2 3 4 show ?thesis by blast
qed

section \<open>Properties of the stability reader\<close>

declare readStableText_loop.simps [simp del]

lemma perform_trace:
  "trace (snd (perform ev call w)) = trace w @ [ev (fst (perform ev call w))]"
  by (simp add: perform_def split: prod.splits)

lemma perform_now: "now w \<le> now (snd (perform ev call w))"
  by (simp add: perform_def split: prod.splits)

lemma perform_fst: "fst (perform ev call w) = fst (call w)"
  by (simp add: perform_def split: prod.splits)

lemma pause_trace:
  "trace (snd (pause env ms w)) = trace w @ [WaitForTimeout ms (fst (pause env ms w))]"
  by (simp add: pause_def split: prod.splits)

lemma pause_fst: "fst (pause env ms w) = fst (waitForTimeout env ms w)"
  by (simp add: pause_def split: prod.splits)

lemma samples_append [simp]: "samples (xs @ ys) = samples xs @ samples ys"
  by (simp add: samples_def)

lemma samples_Nil [simp]: "samples [] = []"
  by (simp add: samples_def)

lemma samples_Cons: "samples (e # evs) = sampledBy e @ samples evs"
  by (simp add: samples_def)

lemma latest_rev_snoc [simp]: "latest (rev (xs @ [t])) = t"
  by (simp add: latest_def)

lemma latest_rev: "ss \<noteq> [] \<Longrightarrow> latest (rev ss) = last ss"
  by (cases ss rule: rev_cases) (simp_all add: latest_def)

lemma added_append: "trace w' = trace w @ evs \<Longrightarrow> added w w' = evs"
  by (simp add: added_def)

text \<open>The counter reaches 3 on a non-empty sample exactly when four samples in a row agree.\<close>

lemma ticksAfter_ge3:
  "(3 \<le> ticksAfter (t # older) \<and> t \<noteq> '''')
     \<longleftrightarrow> (t \<noteq> '''' \<and> (\<exists>rest. older = t # t # t # rest))"
proof (cases older)
  case Nil
  then show ?thesis by (simp add: latest_def)
next
  case (Cons a as)
  note c1 = this
  show ?thesis
  proof (cases as)
    case Nil
    with c1 show ?thesis by (auto simp: latest_def)
  next
    case (Cons b bs)
    note c2 = this
    show ?thesis
    proof (cases bs)
      case Nil
      with c1 c2 show ?thesis by (auto simp: latest_def)
    next
      case (Cons c cs)
      with c1 c2 show ?thesis by (auto simp: latest_def)
    qed
  qed
qed

lemma stableSamples_rev:
  "stableSamples (rev hist) \<longleftrightarrow> (\<exists>t rest. hist = t # t # t # t # rest \<and> t \<noteq> '''')"
proof -
  have d: "drop (length hist - 4) (rev hist) = rev (take 4 hist)" if "4 \<le> length hist"
    using that by (simp add: drop_rev)
  show ?thesis
  proof
    assume s: "stableSamples (rev hist)"
    then have n: "4 \<le> length hist" by (simp add: stableSamples_def)
    then obtain a b c e rest where h: "hist = a # b # c # e # rest"
      by (cases hist; cases "tl hist"; cases "tl (tl hist)"; cases "tl (tl (tl hist))") auto
    from s d [OF n]
    have "rev (take 4 hist) = replicate 4 (last (rev hist))" "last (rev hist) \<noteq> ''''"
      by (simp_all add: stableSamples_def)
    with h show "\<exists>t rest. hist = t # t # t # t # rest \<and> t \<noteq> ''''"
      by (simp add: numeral_eq_Suc)
  next
    assume "\<exists>t rest. hist = t # t # t # t # rest \<and> t \<noteq> ''''"
    then obtain t rest where h: "hist = t # t # t # t # rest" "t \<noteq> ''''" by blast
    then have n: "4 \<le> length hist" by simp
    show "stableSamples (rev hist)"
      unfolding stableSamples_def using d [OF n] h by (simp add: numeral_eq_Suc)
  qed
qed

lemma ticksAfter_stable:
  "(3 \<le> ticksAfter (t # older) \<and> t \<noteq> '''') \<longleftrightarrow> stableSamples (rev (t # older))"
  unfolding ticksAfter_ge3 stableSamples_rev by auto

lemma not_stableSamples_Nil: "\<not> stableSamples []"
  by (simp add: stableSamples_def)

text \<open>
  The loop, started after the samples \<open>hist\<close> (most recent first) with the state it has
  then: what it adds to the transcript, and what it answers.
\<close>

lemma readStableText_loop_run:
  assumes "readStableText_loop env loc start T lastText ticks w = (r, w')"
    and "lastText = latest hist" and "ticks = ticksAfter hist"
    and "\<not> stableSamples (rev hist)"
  shows "\<exists>evs. trace w' = trace w @ evs
           \<and> spacedSamples loc evs
           \<and> (\<forall>k. length hist < k \<and> k < length hist + length (samples evs)
                  \<longrightarrow> \<not> stableSamples (take k (rev hist @ samples evs)))
           \<and> (case r of
                Inl e \<Rightarrow> evs \<noteq> [] \<and> last evs = WaitForTimeout 400 (Inl e)
                         \<and> (\<exists>w0. fst (waitForTimeout env 400 w0) = Inl e)
                         \<and> \<not> stableSamples (rev hist @ samples evs)
              | Inr t \<Rightarrow> t = latest (rev (rev hist @ samples evs))
                         \<and> (if stableSamples (rev hist @ samples evs)
                            then evs \<noteq> [] \<and> (\<exists>x. last evs = InnerText loc x)
                            else T \<le> now w' - start))"
  using assms
proof (induction env loc start T lastText ticks w arbitrary: r w' hist
        rule: readStableText_loop.induct)
  case (1 env loc start T lastText ticks w)
  show ?case
  proof (cases "now w - start < T")
    case False
    with "1.prems"(1) have rw: "r = Inr lastText" "w' = w"
      by (simp_all add: readStableText_loop.simps [of env loc start T lastText ticks w]
            resolve_def)
    have "trace w' = trace w @ []" using rw by simp
    moreover have "latest (rev (rev hist @ samples [])) = lastText"
      using "1.prems"(2) by simp
    ultimately show ?thesis
      using rw False "1.prems"(4) by (intro exI [of _ "[]"]) simp
  next
    case True
    define sampled where "sampled = perform (InnerText loc) (innerText env loc) w"
    define sample where "sample = sampleText (fst sampled)"
    define ticks' where
      "ticks' = (if sample \<noteq> '''' \<and> sample = lastText then ticks + 1 else 0)"
    define paused where "paused = pause env 400 (snd sampled)"
    have unfold: "readStableText_loop env loc start T lastText ticks w =
        (if 3 \<le> ticks' \<and> sample \<noteq> '''' then (Inr sample, snd sampled)
         else case fst paused of
                Inl e \<Rightarrow> (Inl e, snd paused)
              | Inr u \<Rightarrow> readStableText_loop env loc start T sample ticks' (snd paused))"
      by (subst readStableText_loop.simps)
         (simp only: True if_True Let_def sampled_def sample_def ticks'_def paused_def
            resolve_def)
    have t1: "trace (snd sampled) = trace w @ [InnerText loc (fst sampled)]"
      unfolding sampled_def by (rule perform_trace)
    have t2: "trace (snd paused) = trace (snd sampled) @ [WaitForTimeout 400 (fst paused)]"
      unfolding paused_def by (rule pause_trace)
    have tk: "ticks' = ticksAfter (sample # hist)"
      using "1.prems"(2,3) by (simp add: ticks'_def)
    have s1: "samples [InnerText loc (fst sampled)] = [sample]"
      by (simp add: samples_Cons sample_def)
    show ?thesis
    proof (cases "3 \<le> ticks' \<and> sample \<noteq> ''''")
      case stable: True
      with "1.prems"(1) unfold have rw: "r = Inr sample" "w' = snd sampled"
        by simp_all
      from stable have "3 \<le> ticksAfter (sample # hist) \<and> sample \<noteq> ''''" unfolding tk .
      then have "stableSamples (rev (sample # hist))" unfolding ticksAfter_stable .
      then have st: "stableSamples (rev hist @ [sample])" by simp
      show ?thesis
        using rw t1 st s1
        by (intro exI [of _ "[InnerText loc (fst sampled)]"]) (auto simp: latest_def)
    next
      case unstable: False
      then have "\<not> (3 \<le> ticksAfter (sample # hist) \<and> sample \<noteq> '''')" unfolding tk .
      then have "\<not> stableSamples (rev (sample # hist))" unfolding ticksAfter_stable .
      then have ns: "\<not> stableSamples (rev hist @ [sample])" by simp
      show ?thesis
      proof (cases "fst paused")
        case (Inl e)
        with "1.prems"(1) unfold unstable have rw: "r = Inl e" "w' = snd paused"
          by simp_all
        have "trace w' = trace w @ [InnerText loc (fst sampled), WaitForTimeout 400 (Inl e)]"
          using rw t1 t2 Inl by simp
        moreover
        have "samples [InnerText loc (fst sampled), WaitForTimeout 400 (Inl e)] = [sample]"
          by (simp add: samples_Cons sample_def)
        moreover have "\<exists>w0. fst (waitForTimeout env 400 w0) = Inl e"
          using Inl unfolding paused_def pause_fst by blast
        ultimately show ?thesis
          using rw ns
          by (intro exI [of _ "[InnerText loc (fst sampled), WaitForTimeout 400 (Inl e)]"])
             (auto simp: latest_def)
      next
        case (Inr u)
        with "1.prems"(1) unfold unstable
        have rec: "readStableText_loop env loc start T sample ticks' (snd paused) = (r, w')"
          by simp
        have l: "sample = latest (sample # hist)" by (simp add: latest_def)
        have ns': "\<not> stableSamples (rev (sample # hist))" using ns by simp
        from "1.IH" [OF True sampled_def sample_def ticks'_def unstable paused_def Inr rec l tk ns']
        obtain evs where
          tr: "trace w' = trace (snd paused) @ evs"
          and sp: "spacedSamples loc evs"
          and pre: "\<forall>k. length (sample # hist) < k
                        \<and> k < length (sample # hist) + length (samples evs)
                  \<longrightarrow> \<not> stableSamples (take k (rev (sample # hist) @ samples evs))"
          and res: "(case r of
                Inl e \<Rightarrow> evs \<noteq> [] \<and> last evs = WaitForTimeout 400 (Inl e)
                         \<and> (\<exists>w0. fst (waitForTimeout env 400 w0) = Inl e)
                         \<and> \<not> stableSamples (rev (sample # hist) @ samples evs)
              | Inr t \<Rightarrow> t = latest (rev (rev (sample # hist) @ samples evs))
                         \<and> (if stableSamples (rev (sample # hist) @ samples evs)
                            then evs \<noteq> [] \<and> (\<exists>x. last evs = InnerText loc x)
                            else T \<le> now w' - start))"
          by blast
        define all where "all = [InnerText loc (fst sampled), WaitForTimeout 400 (Inr u)] @ evs"
        have sa: "samples all = sample # samples evs"
          by (simp add: all_def samples_Cons sample_def)
        have ss: "rev hist @ samples all = rev (sample # hist) @ samples evs"
          by (simp add: sa)
        have tr': "trace w' = trace w @ all"
          using tr t1 t2 Inr by (simp add: all_def)
        have sp': "spacedSamples loc all"
          using sp by (simp add: all_def)
        have pre': "\<forall>k. length hist < k \<and> k < length hist + length (samples all)
                  \<longrightarrow> \<not> stableSamples (take k (rev hist @ samples all))"
        proof (intro allI impI)
          fix k assume k: "length hist < k \<and> k < length hist + length (samples all)"
          show "\<not> stableSamples (take k (rev hist @ samples all))"
          proof (cases "k = Suc (length hist)")
            case True
            then have "take k (rev hist @ samples all) = rev hist @ [sample]"
              by (simp add: sa)
            with ns show ?thesis by simp
          next
            case False
            with k have "length (sample # hist) < k
                          \<and> k < length (sample # hist) + length (samples evs)"
              by (simp add: sa)
            with pre have "\<not> stableSamples (take k (rev (sample # hist) @ samples evs))"
              by blast
            then show ?thesis unfolding ss .
          qed
        qed
        have res': "(case r of
                Inl e \<Rightarrow> all \<noteq> [] \<and> last all = WaitForTimeout 400 (Inl e)
                         \<and> (\<exists>w0. fst (waitForTimeout env 400 w0) = Inl e)
                         \<and> \<not> stableSamples (rev hist @ samples all)
              | Inr t \<Rightarrow> t = latest (rev (rev hist @ samples all))
                         \<and> (if stableSamples (rev hist @ samples all)
                            then all \<noteq> [] \<and> (\<exists>x. last all = InnerText loc x)
                            else T \<le> now w' - start))"
          using res unfolding ss by (auto simp: all_def split: sum.splits if_splits)
        from tr' sp' pre' res' show ?thesis by blast
      qed
    qed
  qed
qed

lemma readStableText_run:
  assumes "readStableText env loc T w = (r, w')"
  shows "trace w' = trace w @ added w w'
           \<and> spacedSamples loc (added w w')
           \<and> (\<forall>k. 0 < k \<and> k < length (samples (added w w'))
                  \<longrightarrow> \<not> stableSamples (take k (samples (added w w'))))
           \<and> (case r of
                Inl e \<Rightarrow> added w w' \<noteq> [] \<and> last (added w w') = WaitForTimeout 400 (Inl e)
                         \<and> (\<exists>w0. fst (waitForTimeout env 400 w0) = Inl e)
                         \<and> \<not> stableSamples (samples (added w w'))
              | Inr t \<Rightarrow> t = latest (rev (samples (added w w')))
                         \<and> (if stableSamples (samples (added w w'))
                            then added w w' \<noteq> [] \<and> (\<exists>x. last (added w w') = InnerText loc x)
                            else T \<le> now w' - now w))"
proof -
  from assms have run: "readStableText_loop env loc (now w) T '''' 0 w = (r, w')"
    by (simp add: readStableText_def Let_def)
  have l: "'''' = latest []" by (simp add: latest_def)
  have t: "0 = ticksAfter []" by simp
  have n: "\<not> stableSamples (rev [])" by (simp add: not_stableSamples_Nil)
  from readStableText_loop_run [OF run l t n]
  obtain evs where e: "trace w' = trace w @ evs"
    and rest: "spacedSamples loc evs
           \<and> (\<forall>k. length ([] :: string list) < k
                   \<and> k < length ([] :: string list) + length (samples evs)
                  \<longrightarrow> \<not> stableSamples (take k (rev [] @ samples evs)))
           \<and> (case r of
                Inl e \<Rightarrow> evs \<noteq> [] \<and> last evs = WaitForTimeout 400 (Inl e)
                         \<and> (\<exists>w0. fst (waitForTimeout env 400 w0) = Inl e)
                         \<and> \<not> stableSamples (rev [] @ samples evs)
              | Inr t \<Rightarrow> t = latest (rev (rev [] @ samples evs))
                         \<and> (if stableSamples (rev [] @ samples evs)
                            then evs \<noteq> [] \<and> (\<exists>x. last evs = InnerText loc x)
                            else T \<le> now w' - now w))"
    by blast
  have a: "added w w' = evs" using e by (rule added_append)
  from e rest show ?thesis unfolding a by (cases r) auto
qed

text \<open>
  C3. In every run of the stability reader the samples are taken 400 ms apart (each
  followed by a pause of 400 ms before the next); no sample is taken after four samples
  in a row have shown the same non-empty text; as soon as they have, the reader returns
  that text, right after the fourth of them; and while its time budget is not used up it
  returns on nothing less. The witness is the run on the samples a, a, b, b, b, b: it
  returns b after the sixth sample, the fourth b.
\<close>


theorem readStableText_returns_when_stable:
  assumes "readStableText env loc T w = (r, w')"
  shows "spacedSamples loc (added w w')
       \<and> (\<forall>k. k < length (samples (added w w'))
              \<longrightarrow> \<not> stableSamples (take k (samples (added w w'))))
       \<and> (stableSamples (samples (added w w'))
            \<longrightarrow> r = Inr (last (samples (added w w')))
                \<and> (\<exists>x. last (added w w') = InnerText loc x))
       \<and> (\<forall>t. r = Inr t \<and> now w' - now w < T
              \<longrightarrow> stableSamples (samples (added w w')) \<and> t = last (samples (added w w')))"
proof -
  note run = readStableText_run [OF assms]
  have ne: "samples (added w w') \<noteq> []" if "stableSamples (samples (added w w'))"
    using that by (auto simp: stableSamples_def)
  have 1: "spacedSamples loc (added w w')" using run by blast
  have 2: "\<not> stableSamples (take k (samples (added w w')))"
    if "k < length (samples (added w w'))" for k
  proof (cases "k = 0")
    case True
    then show ?thesis by (simp add: not_stableSamples_Nil)
  next
    case False
    with that run show ?thesis by blast
  qed
  have 3: "r = Inr (last (samples (added w w'))) \<and> (\<exists>x. last (added w w') = InnerText loc x)"
    if st: "stableSamples (samples (added w w'))"
  proof (cases r)
    case (Inl e)
    with run st show ?thesis by auto
  next
    case (Inr t)
    with run st have "t = latest (rev (samples (added w w')))"
      and "\<exists>x. last (added w w') = InnerText loc x" by auto
    with Inr latest_rev [OF ne [OF st]] show ?thesis by simp
  qed
  have 4: "stableSamples (samples (added w w')) \<and> t = last (samples (added w w'))"
    if "r = Inr t \<and> now w' - now w < T" for t
  proof -
    from that run have t: "t = latest (rev (samples (added w w')))"
      and c: "if stableSamples (samples (added w w'))
              then added w w' \<noteq> [] \<and> (\<exists>x. last (added w w') = InnerText loc x)
              else T \<le> now w' - now w"
      by auto
    from c that have st: "stableSamples (samples (added w w'))"
      by (auto split: if_splits)
    with t latest_rev [OF ne [OF st]] show ?thesis by simp
  qed
  from 1 2 3 4 show ?thesis by blast
qed

theorem readStableText_returns_when_stable_witness:
  "fst (readStableText (browserEnv [''a'', ''a'', ''b'', ''b'', ''b'', ''b'']) theMessage 5000 world0)
     = Inr ''b''
   \<and> added world0
        (snd (readStableText (browserEnv [''a'', ''a'', ''b'', ''b'', ''b'', ''b''])
                theMessage 5000 world0))
     = [InnerText theMessage (Inr (Some ''a'')), WaitForTimeout 400 (Inr ()),
        InnerText theMessage (Inr (Some ''a'')), WaitForTimeout 400 (Inr ()),
        InnerText theMessage (Inr (Some ''b'')), WaitForTimeout 400 (Inr ()),
        InnerText theMessage (Inr (Some ''b'')), WaitForTimeout 400 (Inr ()),
        InnerText theMessage (Inr (Some ''b'')), WaitForTimeout 400 (Inr ()),
        InnerText theMessage (Inr (Some ''b''))]
   \<and> stableSamples [''a'', ''a'', ''b'', ''b'', ''b'', ''b'']
   \<and> \<not> stableSamples [''a'', ''a'', ''b'', ''b'', ''b'']"
proof -
  define E where "E = browserEnv [''a'', ''a'', ''b'', ''b'', ''b'', ''b'']"
  define W where "W = snd (readStableText E theMessage 5000 world0)"
  have r: "fst (readStableText E theMessage 5000 world0) = Inr ''b''"
    unfolding E_def by code_simp
  have a: "added world0 W
     = [InnerText theMessage (Inr (Some ''a'')), WaitForTimeout 400 (Inr ()),
        InnerText theMessage (Inr (Some ''a'')), WaitForTimeout 400 (Inr ()),
        InnerText theMessage (Inr (Some ''b'')), WaitForTimeout 400 (Inr ()),
        InnerText theMessage (Inr (Some ''b'')), WaitForTimeout 400 (Inr ()),
        InnerText theMessage (Inr (Some ''b'')), WaitForTimeout 400 (Inr ()),
        InnerText theMessage (Inr (Some ''b''))]"
    unfolding W_def E_def by code_simp
  have s: "samples (added world0 W) = [''a'', ''a'', ''b'', ''b'', ''b'', ''b'']"
    unfolding W_def E_def by code_simp
  have n: "now W - now world0 < 5000"
    unfolding W_def E_def by code_simp
  have run: "readStableText E theMessage 5000 world0 = (Inr ''b'', W)"
    using r by (simp add: W_def prod_eq_iff)
  note t = readStableText_returns_when_stable [OF run]
  from t n have "stableSamples (samples (added world0 W))" by blast
  then have 1: "stableSamples [''a'', ''a'', ''b'', ''b'', ''b'', ''b'']"
    unfolding s .
  from t have "5 < length (samples (added world0 W))
                 \<longrightarrow> \<not> stableSamples (take 5 (samples (added world0 W)))"
    by blast
  then have 2: "\<not> stableSamples [''a'', ''a'', ''b'', ''b'', ''b'']"
    unfolding s by simp
  from r a 1 2 show ?thesis unfolding W_def E_def by blast
qed

text \<open>
  C4, as stated, fails: the pause between two samples is awaited without a handler, so
  when it rejects (the page was closed while the reader waited) the reader raises.
\<close>

theorem readStableText_raises_counterexample:
  "fst (readStableText
          ((browserEnv [''Hel''])
             \<lparr>waitForTimeout :=
                (\<lambda>ms w. (Inl (OtherFault ''Error: page.waitForTimeout: Target page, context or browser has been closed''), 7))\<rparr>)
          theMessage 5000 world0)
     = Inl (OtherFault ''Error: page.waitForTimeout: Target page, context or browser has been closed'')"
  by code_simp

text \<open>
  C4, amended. The stability reader raises only when a pause between two samples
  rejects, and then with the error of that pause; a failed read of the text never raises
  (it counts as an empty sample). Whenever it returns, it returns the last sample it took,
  which may be empty (and is empty when it took none); and when it returns without four
  equal non-empty samples in a row, its time budget has elapsed.
\<close>

theorem readStableText_best_effort:
  assumes "readStableText env loc T w = (r, w')"
  shows "(\<forall>e. r = Inl e
            \<longrightarrow> (\<exists>w0. fst (waitForTimeout env 400 w0) = Inl e)
                \<and> added w w' \<noteq> [] \<and> last (added w w') = WaitForTimeout 400 (Inl e))
       \<and> (\<forall>t. r = Inr t
            \<longrightarrow> t = (if samples (added w w') = [] then '''' else last (samples (added w w'))))
       \<and> (\<forall>t. r = Inr t \<and> \<not> stableSamples (samples (added w w'))
            \<longrightarrow> T \<le> now w' - now w)"
proof -
  note run = readStableText_run [OF assms]
  have l: "latest (rev ss) = (if ss = [] then '''' else last ss)" for ss
    by (cases ss rule: rev_cases) (simp_all add: latest_def)
  have 1: "(\<exists>w0. fst (waitForTimeout env 400 w0) = Inl e)
             \<and> added w w' \<noteq> [] \<and> last (added w w') = WaitForTimeout 400 (Inl e)"
    if "r = Inl e" for e
    using that run by auto
  have 2: "t = (if samples (added w w') = [] then '''' else last (samples (added w w')))"
    if "r = Inr t" for t
  proof -
    from that run have "t = latest (rev (samples (added w w')))" by auto
    then show ?thesis by (simp only: l)
  qed
  have 3: "T \<le> now w' - now w"
    if "r = Inr t \<and> \<not> stableSamples (samples (added w w'))" for t
    using that run by auto
  from 1 2 3 show ?thesis by blast
qed

theorem readStableText_best_effort_witness:
  "fst (readStableText (browserEnv [''H'', ''He'', ''Hel'', ''Hell'']) theMessage 1000 world0)
     = Inr ''Hel''
   \<and> samples (added world0
        (snd (readStableText (browserEnv [''H'', ''He'', ''Hel'', ''Hell'']) theMessage 1000 world0)))
     = [''H'', ''He'', ''Hel'']
   \<and> 1000 \<le> now (snd (readStableText (browserEnv [''H'', ''He'', ''Hel'', ''Hell''])
                          theMessage 1000 world0)) - now world0
   \<and> fst (readStableText (browserEnv []) theMessage 0 world0) = Inr ''''"
proof -
  define E where "E = browserEnv [''H'', ''He'', ''Hel'', ''Hell'']"
  define W where "W = snd (readStableText E theMessage 1000 world0)"
  have r: "fst (readStableText E theMessage 1000 world0) = Inr ''Hel''"
    unfolding E_def by code_simp
  have s: "samples (added world0 W) = [''H'', ''He'', ''Hel'']"
    unfolding W_def E_def by code_simp
  have ns: "\<not> stableSamples [''H'', ''He'', ''Hel'']"
    by (simp add: stableSamples_def)
  have run: "readStableText E theMessage 1000 world0 = (Inr ''Hel'', W)"
    using r by (simp add: W_def prod_eq_iff)
  from readStableText_best_effort [OF run] ns
  have 1: "1000 \<le> now W - now world0"
    unfolding s by blast
  have run0: "readStableText (browserEnv []) theMessage 0 world0
                = (fst (readStableText (browserEnv []) theMessage 0 world0),
                   snd (readStableText (browserEnv []) theMessage 0 world0))"
    by simp
  have s0: "samples (added world0 (snd (readStableText (browserEnv []) theMessage 0 world0))) = []"
    by code_simp
  have "\<not> isl (fst (readStableText (browserEnv []) theMessage 0 world0))"
    by code_simp
  then have e0: "\<exists>t. fst (readStableText (browserEnv []) theMessage 0 world0) = Inr t"
    by (cases "fst (readStableText (browserEnv []) theMessage 0 world0)") auto
  from readStableText_best_effort [OF run0] e0
  have 2: "fst (readStableText (browserEnv []) theMessage 0 world0) = Inr ''''"
    unfolding s0 by auto
  from r s 1 2 show ?thesis unfolding W_def E_def by blast
qed

section \<open>Properties of the input locator\<close>

text \<open>
  The wait of a strategy is the time left to the deadline raised to at least 500 ms, so the
  test \<open>timeout <= 0\<close> that follows never holds and the \<open>break\<close> is never taken: a strategy
  always starts with its wait, however long ago the deadline passed.
\<close>

lemma strategy_timeout_bounds:
  "500 \<le> min 2500 (max 500 (x :: int)) \<and> min 2500 (max 500 x) \<le> 2500"
  by simp

lemma findPromptInput_loop_break_dead:
  "findPromptInput_loop env deadline (selector # rest) w =
     (let locator = First (Locator selector);
          timeout = min 2500 (max 500 (deadline - now w))
      in case perform (WaitFor locator timeout) (waitFor env locator timeout) w of
           (Inl e, w1) \<Rightarrow> findPromptInput_loop env deadline rest w1
         | (Inr u, w1) \<Rightarrow>
             (case catchDefault False
                     (perform (IsEnabled locator) (isEnabled env locator)) w1 of
                (Inr True, w2) \<Rightarrow> resolve locator w2
              | (r, w2) \<Rightarrow> findPromptInput_loop env deadline rest w2))"
proof -
  have pos: "\<not> min 2500 (max 500 (deadline - now w)) \<le> 0" by simp
  show ?thesis using pos by (simp add: Let_def)
qed

text \<open>
  C5 fails on the code in its last part, that the input locator fails once the deadline
  has passed. The loop is written to give up then (\<open>if (timeout <= 0) break\<close>), but the
  timeout it tests has just been raised to at least 500 ms by \<open>Math.max(500, ...)\<close>, so the
  exit is never taken and the remaining strategies are still tried, each with a wait of
  500 ms. Here the budget is 0 and the call starts at 1000, so the deadline is 3000. On the
  first page the first wait times out at 3100, after the deadline; the search goes on
  from there with the other selectors, and the match of the second is returned instead of
  the failure. On the second page nothing ever becomes visible: the locator waits
  2000, 500, 500 and 500 ms and fails only when the selectors are exhausted, 1900 ms
  after the deadline.
\<close>

theorem findPromptInput_ignores_deadline:
  "(let l0 = First (Locator (selectors ! 0));
        timedOut = perform (WaitFor l0 2000) (waitFor slowPageEnv l0 2000) world0;
        found = findPromptInput slowPageEnv 0 world0
    in now world0 + max 2000 0 < now (snd timedOut)
       \<and> found = findPromptInput_loop slowPageEnv (now world0 + max 2000 0) (tl selectors)
                   (snd timedOut)
       \<and> fst found = Inr (First (Locator (selectors ! 1)))
       \<and> added world0 (snd found)
           = [WaitFor (First (Locator (selectors ! 0))) 2000
                (Inl (OtherFault ''TimeoutError: locator.waitFor: Timeout exceeded'')),
              WaitFor (First (Locator (selectors ! 1))) 500 (Inr ()),
              IsEnabled (First (Locator (selectors ! 1))) (Inr True)])
   \<and> (let missed = findPromptInput neverVisibleEnv 0 world0
      in fst missed = Inl inputNotFound
         \<and> waited (added world0 (snd missed))
             = [(First (Locator (selectors ! 0)), 2000),
                (First (Locator (selectors ! 1)), 500),
                (First (Locator (selectors ! 2)), 500),
                (First (Locator (selectors ! 3)), 500)]
         \<and> now (snd missed) = now world0 + max 2000 0 + 1900)"
  by code_simp

theorem findPromptInput_ignores_deadline_witness:
  "\<exists>loc. fst (findPromptInput slowPageEnv 0 world0) = Inr loc
         \<and> now world0 + max 2000 0
             < now (snd (perform (WaitFor (First (Locator (selectors ! 0))) 2000)
                           (waitFor slowPageEnv (First (Locator (selectors ! 0))) 2000) world0))"
  using findPromptInput_ignores_deadline unfolding Let_def by blast

section \<open>Steps that neither load the module nor open or close a page\<close>

lemma opened_append [simp]: "opened (xs @ ys) = opened xs @ opened ys"
  by (simp add: opened_def)

lemma closed_append [simp]: "closed (xs @ ys) = closed xs @ closed ys"
  by (simp add: closed_def)

lemma loaded_append [simp]: "loaded (xs @ ys) = loaded xs @ loaded ys"
  by (simp add: loaded_def)

lemma quiet_events:
  "list_all quietEvent evs \<Longrightarrow> opened evs = [] \<and> closed evs = [] \<and> loaded evs = []"
  by (induction evs) (simp_all add: opened_def closed_def loaded_def quietEvent_def)

lemma await_Inl: "fst (m w) = Inl e \<Longrightarrow> await m k w = (Inl e, snd (m w))"
  by (cases "m w") (simp add: await_def)

lemma await_Inr: "fst (m w) = Inr x \<Longrightarrow> await m k w = k x (snd (m w))"
  by (cases "m w") (simp add: await_def)

lemma tryCatch_Inl: "fst (m w) = Inl e \<Longrightarrow> tryCatch m handler w = handler e (snd (m w))"
  by (cases "m w") (simp add: tryCatch_def)

lemma tryCatch_Inr: "fst (m w) = Inr x \<Longrightarrow> tryCatch m handler w = (Inr x, snd (m w))"
  by (cases "m w") (simp add: tryCatch_def)

lemma catchDefault_snd: "snd (catchDefault d m w) = snd (m w)"
  by (cases "m w") (simp add: catchDefault_def split: sum.splits)

lemma catchDefault_fst:
  "fst (catchDefault d m w) = (case fst (m w) of Inl e \<Rightarrow> Inr d | Inr x \<Rightarrow> Inr x)"
  by (cases "m w") (simp add: catchDefault_def split: sum.splits)

lemma quietlyD:
  assumes "quietly m"
  obtains evs where "trace (snd (m w)) = trace w @ evs" and "list_all quietEvent evs"
  using assms unfolding quietly_def by blast

lemma quietlyI:
  assumes "\<And>w. \<exists>evs. trace (snd (m w)) = trace w @ evs \<and> list_all quietEvent evs"
  shows "quietly m"
  using assms unfolding quietly_def by blast

lemma quietly_perform:
  assumes "\<And>r. quietEvent (ev r)"
  shows "quietly (perform ev call)"
proof (rule quietlyI)
  fix w
  have "list_all quietEvent [ev (fst (perform ev call w))]" using assms by simp
  with perform_trace [of ev call w]
  show "\<exists>evs. trace (snd (perform ev call w)) = trace w @ evs \<and> list_all quietEvent evs"
    by blast
qed

lemma quietly_pause: "quietly (pause env ms)"
proof (rule quietlyI)
  fix w
  have "list_all quietEvent [WaitForTimeout ms (fst (pause env ms w))]"
    by (simp add: quietEvent_def)
  with pause_trace [of env ms w]
  show "\<exists>evs. trace (snd (pause env ms w)) = trace w @ evs \<and> list_all quietEvent evs"
    by blast
qed

lemma quietly_resolve: "quietly (\<lambda>w. resolve (x w) w)"
  by (rule quietlyI) (simp add: resolve_def)

lemma quietly_reject: "quietly (reject e)"
  by (rule quietlyI) (simp add: reject_def)

lemma quietly_pure: "quietly (\<lambda>w. (x, w))"
  by (rule quietlyI) simp

lemma quietly_logDebug: "quietly (logDebug message)"
proof (rule quietlyI)
  fix w
  have "list_all quietEvent [LogDebug message]" by (simp add: quietEvent_def)
  moreover have "trace (snd (logDebug message w)) = trace w @ [LogDebug message]"
    by (simp add: logDebug_def)
  ultimately
  show "\<exists>evs. trace (snd (logDebug message w)) = trace w @ evs \<and> list_all quietEvent evs"
    by blast
qed

lemma quietly_await:
  assumes "quietly m" and "\<And>x. quietly (k x)"
  shows "quietly (await m k)"
proof (rule quietlyI)
  fix w
  from assms(1) obtain evs1 where
    1: "trace (snd (m w)) = trace w @ evs1" "list_all quietEvent evs1"
    by (rule quietlyD)
  show "\<exists>evs. trace (snd (await m k w)) = trace w @ evs \<and> list_all quietEvent evs"
  proof (cases "fst (m w)")
    case (Inl e)
    then have "await m k w = (Inl e, snd (m w))"
      by (rule await_Inl)
    with 1 show ?thesis by auto
  next
    case (Inr x)
    then have a: "await m k w = k x (snd (m w))"
      by (rule await_Inr)
    from assms(2) [of x] obtain evs2 where
      2: "trace (snd (k x (snd (m w)))) = trace (snd (m w)) @ evs2" "list_all quietEvent evs2"
      by (rule quietlyD)
    have "trace (snd (await m k w)) = trace w @ (evs1 @ evs2)"
      using a 1 2 by simp
    moreover have "list_all quietEvent (evs1 @ evs2)" using 1 2 by simp
    ultimately show ?thesis by blast
  qed
qed

lemma quietly_catchDefault:
  assumes "quietly m"
  shows "quietly (catchDefault d m)"
proof (rule quietlyI)
  fix w
  from assms obtain evs where
    1: "trace (snd (m w)) = trace w @ evs" "list_all quietEvent evs"
    by (rule quietlyD)
  have "snd (catchDefault d m w) = snd (m w)"
    by (rule catchDefault_snd)
  with 1 show "\<exists>evs. trace (snd (catchDefault d m w)) = trace w @ evs \<and> list_all quietEvent evs"
    by auto
qed

lemma quietly_tryCatch:
  assumes "quietly m" and "\<And>e. quietly (handler e)"
  shows "quietly (tryCatch m handler)"
proof (rule quietlyI)
  fix w
  from assms(1) obtain evs1 where
    1: "trace (snd (m w)) = trace w @ evs1" "list_all quietEvent evs1"
    by (rule quietlyD)
  show "\<exists>evs. trace (snd (tryCatch m handler w)) = trace w @ evs \<and> list_all quietEvent evs"
  proof (cases "fst (m w)")
    case (Inr x)
    then have "tryCatch m handler w = (Inr x, snd (m w))"
      by (rule tryCatch_Inr)
    with 1 show ?thesis by auto
  next
    case (Inl e)
    then have a: "tryCatch m handler w = handler e (snd (m w))"
      by (rule tryCatch_Inl)
    from assms(2) [of e] obtain evs2 where
      2: "trace (snd (handler e (snd (m w)))) = trace (snd (m w)) @ evs2"
         "list_all quietEvent evs2"
      by (rule quietlyD)
    have "trace (snd (tryCatch m handler w)) = trace w @ (evs1 @ evs2)"
      using a 1 2 by simp
    moreover have "list_all quietEvent (evs1 @ evs2)" using 1 2 by simp
    ultimately show ?thesis by blast
  qed
qed

lemma spacedSamples_quiet: "spacedSamples loc evs \<Longrightarrow> list_all quietEvent evs"
  by (induction loc evs rule: spacedSamples.induct)
     (auto simp: quietEvent_def split: event.splits)

lemma quietly_readStableText: "quietly (readStableText env loc T)"
proof (rule quietlyI)
  fix w
  have "readStableText env loc T w
          = (fst (readStableText env loc T w), snd (readStableText env loc T w))"
    by simp
  from readStableText_run [OF this]
  have "trace (snd (readStableText env loc T w))
          = trace w @ added w (snd (readStableText env loc T w))"
    and "spacedSamples loc (added w (snd (readStableText env loc T w)))"
    by blast+
  then show "\<exists>evs. trace (snd (readStableText env loc T w)) = trace w @ evs
                 \<and> list_all quietEvent evs"
    using spacedSamples_quiet by blast
qed

lemma quietly_findPromptInput_loop: "quietly (findPromptInput_loop env deadline sels)"
proof (induction sels)
  case Nil
  show ?case by (rule quietlyI) (simp add: reject_def)
next
  case (Cons s sels)
  show ?case
  proof (rule quietlyI)
    fix w :: world
    define l where "l = First (Locator s)"
    define t where "t = min 2500 (max 500 (deadline - now w))"
    define waitedFor where "waitedFor = perform (WaitFor l t) (waitFor env l t) w"
    define checked where "checked = perform (IsEnabled l) (isEnabled env l) (snd waitedFor)"
    have pos: "\<not> t \<le> 0" unfolding t_def by simp
    have t1: "trace (snd waitedFor) = trace w @ [WaitFor l t (fst waitedFor)]"
      unfolding waitedFor_def by (rule perform_trace)
    have t2: "trace (snd checked) = trace (snd waitedFor) @ [IsEnabled l (fst checked)]"
      unfolding checked_def by (rule perform_trace)
    have q1: "list_all quietEvent [WaitFor l t (fst waitedFor)]"
      by (simp add: quietEvent_def)
    have q2: "list_all quietEvent [WaitFor l t (fst waitedFor), IsEnabled l (fst checked)]"
      by (simp add: quietEvent_def)
    have unfold: "findPromptInput_loop env deadline (s # sels) w =
        (case fst waitedFor of
           Inl e \<Rightarrow> findPromptInput_loop env deadline sels (snd waitedFor)
         | Inr u \<Rightarrow>
             if fst checked = Inr True then (Inr l, snd checked)
             else findPromptInput_loop env deadline sels (snd checked))"
      using pos
      by (auto simp: Let_def l_def t_def waitedFor_def checked_def catchDefault_def resolve_def
            split: prod.splits sum.splits bool.splits)
    show "\<exists>evs. trace (snd (findPromptInput_loop env deadline (s # sels) w)) = trace w @ evs
               \<and> list_all quietEvent evs"
    proof (cases "fst waitedFor")
      case (Inl e)
      from Cons.IH obtain evs where
        "trace (snd (findPromptInput_loop env deadline sels (snd waitedFor)))
           = trace (snd waitedFor) @ evs" "list_all quietEvent evs"
        by (rule quietlyD)
      with Inl unfold t1 q1
      have "trace (snd (findPromptInput_loop env deadline (s # sels) w))
              = trace w @ ([WaitFor l t (fst waitedFor)] @ evs)
            \<and> list_all quietEvent ([WaitFor l t (fst waitedFor)] @ evs)"
        by simp
      then show ?thesis by blast
    next
      case (Inr u)
      show ?thesis
      proof (cases "fst checked = Inr True")
        case True
        with Inr unfold t1 t2 q2
        have "trace (snd (findPromptInput_loop env deadline (s # sels) w))
                = trace w @ [WaitFor l t (fst waitedFor), IsEnabled l (fst checked)]"
          by simp
        with q2 show ?thesis by blast
      next
        case False
        from Cons.IH obtain evs where
          "trace (snd (findPromptInput_loop env deadline sels (snd checked)))
             = trace (snd checked) @ evs" "list_all quietEvent evs"
          by (rule quietlyD)
        with False Inr unfold t1 t2 q2
        have "trace (snd (findPromptInput_loop env deadline (s # sels) w))
                = trace w @ ([WaitFor l t (fst waitedFor), IsEnabled l (fst checked)] @ evs)
              \<and> list_all quietEvent
                  ([WaitFor l t (fst waitedFor), IsEnabled l (fst checked)] @ evs)"
          by simp
        then show ?thesis by blast
      qed
    qed
  qed
qed

lemma quietly_findPromptInput: "quietly (findPromptInput env T)"
proof (rule quietlyI)
  fix w
  from quietly_findPromptInput_loop [of env "now w + max 2000 T" selectors]
  obtain evs where
    "trace (snd (findPromptInput_loop env (now w + max 2000 T) selectors w)) = trace w @ evs"
    "list_all quietEvent evs"
    by (rule quietlyD)
  then show "\<exists>evs. trace (snd (findPromptInput env T w)) = trace w @ evs
                 \<and> list_all quietEvent evs"
    by (auto simp: findPromptInput_def Let_def)
qed

lemma quietly_clickSend: "quietly (clickSend env input)"
  unfolding clickSend_def Let_def
  by (intro quietly_await quietly_catchDefault quietly_perform)
     (auto simp: quietEvent_def intro!: quietly_catchDefault quietly_perform
        quietly_resolve [of "\<lambda>w. False", simplified])

lemma quietly_waitForAssistantMessage: "quietly (waitForAssistantMessage env n T)"
  unfolding waitForAssistantMessage_def Let_def
  by (intro quietly_await quietly_catchDefault quietly_perform)
     (auto simp: quietEvent_def intro!: quietly_reject quietly_resolve [of "\<lambda>w. x" for x])

lemma quietly_promptSteps: "quietly (promptSteps env options cdpUrl info start)"
  unfolding promptSteps_def Let_def
  by (intro quietly_await quietly_catchDefault quietly_perform quietly_findPromptInput
        quietly_clickSend quietly_waitForAssistantMessage quietly_readStableText)
     (auto simp: quietEvent_def intro!: quietly_reject quietly_resolve)

lemma quietly_promptFailed: "quietly (promptFailed err)"
  unfolding promptFailed_def
  by (intro quietly_await quietly_logDebug) (auto intro!: quietly_reject)

lemma quietly_ensureAtlasCdpUrl: "quietly (ensureAtlasCdpUrl env profile)"
  unfolding ensureAtlasCdpUrl_def Let_def
  by (intro quietly_tryCatch quietly_await quietly_perform)
     (auto simp: quietEvent_def
        intro!: quietly_reject quietly_await quietly_perform quietly_resolve [of "\<lambda>w. x" for x])

section \<open>Properties of the session orchestrator\<close>

lemma perform_cases:
  obtains x w1 where "perform ev call w = (x, w1)" and "trace w1 = trace w @ [ev x]"
    and "x = fst (call w)"
proof -
  have "perform ev call w = (fst (perform ev call w), snd (perform ev call w))" by simp
  moreover have "trace (snd (perform ev call w)) = trace w @ [ev (fst (perform ev call w))]"
    by (rule perform_trace)
  moreover have "fst (perform ev call w) = fst (call w)" by (rule perform_fst)
  ultimately show ?thesis using that by blast
qed

lemma quietly_cases:
  assumes "quietly m"
  obtains x w1 evs where "m w = (x, w1)" and "trace w1 = trace w @ evs"
    and "list_all quietEvent evs"
proof -
  from assms obtain evs where "trace (snd (m w)) = trace w @ evs" "list_all quietEvent evs"
    by (rule quietlyD)
  moreover have "m w = (fst (m w), snd (m w))" by simp
  ultimately show ?thesis using that by blast
qed

text \<open>The \<open>catch\<close> clause always throws the unified error; the \<open>finally\<close> clause never throws.\<close>

lemma promptFailed_rejects:
  "\<exists>e. fst (promptFailed err w) = Inl e \<and> isAtlasUnavailableError e"
  by (simp add: promptFailed_def await_def logDebug_def reject_def)

lemma closePage_run:
  "fst (closePage env pwModule cdpUrl info w) = Inr ()
   \<and> (\<exists>x. trace (snd (closePage env pwModule cdpUrl info w))
            = trace w @ (if hasClosePageByTargetIdViaPlaywright pwModule
                         then [ClosePage cdpUrl (targetId info) x] else []))"
proof (cases "hasClosePageByTargetIdViaPlaywright pwModule")
  case False
  then show ?thesis by (simp add: closePage_def resolve_def)
next
  case True
  define c where
    "c = perform (ClosePage cdpUrl (targetId info))
           (closePageByTargetIdViaPlaywright env cdpUrl (targetId info)) w"
  have t: "trace (snd c) = trace w @ [ClosePage cdpUrl (targetId info) (fst c)]"
    unfolding c_def by (rule perform_trace)
  have "fst (closePage env pwModule cdpUrl info w) = Inr ()"
    using True by (simp add: closePage_def catchDefault_fst split: sum.splits)
  moreover have "snd (closePage env pwModule cdpUrl info w) = snd c"
    using True by (simp add: closePage_def catchDefault_snd c_def)
  ultimately show ?thesis using t True by auto
qed

text \<open>The scoped region: the \<open>try\<close> block with its \<open>catch\<close> and \<open>finally\<close> clauses.\<close>

lemma scoped_region_run:
  assumes "tryFinally (tryCatch (promptSteps env options cdpUrl info start) promptFailed)
             (closePage env pwModule cdpUrl info) w = (r, w')"
  shows "\<exists>evs x. trace w' = trace w @ evs
                     @ (if hasClosePageByTargetIdViaPlaywright pwModule
                        then [ClosePage cdpUrl (targetId info) x] else [])
           \<and> list_all quietEvent evs
           \<and> (\<forall>e. r = Inl e \<longrightarrow> isAtlasUnavailableError e)"
proof -
  define body where "body = tryCatch (promptSteps env options cdpUrl info start) promptFailed"
  have q: "quietly body"
    unfolding body_def by (intro quietly_tryCatch quietly_promptSteps quietly_promptFailed)
  from q obtain r0 w1 evs where
    b: "body w = (r0, w1)" and t1: "trace w1 = trace w @ evs" and qe: "list_all quietEvent evs"
    by (rule quietly_cases)
  from closePage_run [of env pwModule cdpUrl info w1] obtain x where
    c: "fst (closePage env pwModule cdpUrl info w1) = Inr ()"
    and t2: "trace (snd (closePage env pwModule cdpUrl info w1))
               = trace w1 @ (if hasClosePageByTargetIdViaPlaywright pwModule
                             then [ClosePage cdpUrl (targetId info) x] else [])"
    by blast
  from assms b c have rw: "r = r0" "w' = snd (closePage env pwModule cdpUrl info w1)"
    by (auto simp: tryFinally_def body_def split: prod.splits sum.splits)
  have au: "isAtlasUnavailableError e" if "r0 = Inl e" for e
  proof (cases "fst (promptSteps env options cdpUrl info start w)")
    case (Inr res)
    from tryCatch_Inr [of "promptSteps env options cdpUrl info start" w res promptFailed] Inr b that
    show ?thesis by (simp add: body_def)
  next
    case (Inl e0)
    from tryCatch_Inl [of "promptSteps env options cdpUrl info start" w e0 promptFailed] Inl b
    have "fst (promptFailed e0 (snd (promptSteps env options cdpUrl info start w))) = r0"
      by (simp add: body_def)
    with promptFailed_rejects [of e0 "snd (promptSteps env options cdpUrl info start w)"] that
    show ?thesis by (metis sum.inject(1))
  qed
  from rw t1 t2 qe au show ?thesis by auto
qed

lemma opened_Nil [simp]: "opened [] = []" and closed_Nil [simp]: "closed [] = []"
  and loaded_Nil [simp]: "loaded [] = []"
  by (simp_all add: opened_def closed_def loaded_def)

lemma opened_Cons [simp]: "opened (e # evs) = openedBy e @ opened evs"
  and closed_Cons [simp]: "closed (e # evs) = closedBy e @ closed evs"
  and loaded_Cons [simp]: "loaded (e # evs) = loadedBy e @ loaded evs"
  by (simp_all add: opened_def closed_def loaded_def)

text \<open>
  Every run of \<open>runAtlasPrompt\<close>: either it opens no page and calls no close, or it loads a
  module, opens one page, and ends with the scoped region, whose last call is the close
  of that page when the module has one.
\<close>

lemma runAtlasPrompt_run:
  assumes "runAtlasPrompt env options w = (r, w')"
  shows "\<exists>evs. trace w' = trace w @ evs
           \<and> (opened evs = [] \<and> closed evs = []
              \<or> (\<exists>cdpUrl (info :: pageInfo) pwModule x.
                    opened evs = [(cdpUrl, targetId info)]
                    \<and> loaded evs = [pwModule]
                    \<and> closed evs = (if hasClosePageByTargetIdViaPlaywright pwModule
                                     then [(cdpUrl, targetId info)] else [])
                    \<and> (if hasClosePageByTargetIdViaPlaywright pwModule
                        then last evs = ClosePage cdpUrl (targetId info) x else True)
                    \<and> (\<forall>e. r = Inl e \<longrightarrow> isAtlasUnavailableError e)))"
proof -
  have none: ?thesis if "trace w' = trace w @ evs" "opened evs = []" "closed evs = []" for evs
    using that by blast
  show ?thesis
  proof (cases "optSandboxed options = Some True")
    case True
    with assms have "w' = w" by (simp add: runAtlasPrompt_def reject_def)
    then show ?thesis by (intro none [of "[]"]) simp_all
  next
    case sandbox: False
    show ?thesis
    proof (cases "resolveAtlasProfile env (optConfig options)")
      case (Inl e)
      with assms sandbox have "w' = w" by (simp add: runAtlasPrompt_def await_def)
      then show ?thesis by (intro none [of "[]"]) simp_all
    next
      case (Inr found)
      show ?thesis
      proof (cases found)
        case None
        with assms sandbox Inr have "w' = w"
          by (simp add: runAtlasPrompt_def await_def reject_def)
        then show ?thesis by (intro none [of "[]"]) simp_all
      next
        case (Some profile)
        obtain x w1 where g: "perform GetPwAiModule (getPwAiModule env) w = (x, w1)"
          and t1: "trace w1 = trace w @ [GetPwAiModule x]"
          by (rule perform_cases [of GetPwAiModule "getPwAiModule env" w])
        have early: ?thesis if "w' = w1"
          using that t1 by (intro none [of "[GetPwAiModule x]"]) simp_all
        show ?thesis
        proof (cases x)
          case (Inl e)
          with assms sandbox Inr Some g have "w' = w1"
            by (simp add: runAtlasPrompt_def await_def)
          then show ?thesis by (rule early)
        next
          case loadedModule: (Inr loadedModule)
          show ?thesis
          proof (cases loadedModule)
            case None
            with assms sandbox Inr Some g loadedModule have "w' = w1"
              by (simp add: runAtlasPrompt_def await_def reject_def)
            then show ?thesis by (rule early)
          next
            case pw: (Some pwModule)
            show ?thesis
            proof (cases "hasCreatePageViaPlaywright pwModule \<and> hasGetPageForTargetId pwModule")
              case False
              with assms sandbox Inr Some g loadedModule pw have "w' = w1"
                by (auto simp: runAtlasPrompt_def await_def reject_def)
              then show ?thesis by (rule early)
            next
              case usable: True
              obtain y w2 evs2 where c: "ensureAtlasCdpUrl env profile w1 = (y, w2)"
                and t2: "trace w2 = trace w1 @ evs2" and q2: "list_all quietEvent evs2"
                by (rule quietly_cases [OF quietly_ensureAtlasCdpUrl])
              note z2 = quiet_events [OF q2]
              show ?thesis
              proof (cases y)
                case (Inl e)
                with assms sandbox Inr Some g loadedModule pw usable c have "w' = w2"
                  by (simp add: runAtlasPrompt_def await_def)
                with t1 t2 z2 show ?thesis
                  by (intro none [of "[GetPwAiModule x] @ evs2"]) simp_all
              next
                case url: (Inr cdpUrl)
                define chatUrl where
                  "chatUrl = orElse (trimOpt (optUrl options)) DEFAULT_ATLAS_CHAT_URL"
                obtain z w3 where p: "perform (CreatePage cdpUrl chatUrl)
                                        (createPageViaPlaywright env cdpUrl chatUrl) w2 = (z, w3)"
                  and t3: "trace w3 = trace w2 @ [CreatePage cdpUrl chatUrl z]"
                  by (rule perform_cases
                        [of "CreatePage cdpUrl chatUrl" "createPageViaPlaywright env cdpUrl chatUrl" w2])
                show ?thesis
                proof (cases z)
                  case (Inl e)
                  with assms sandbox Inr Some g loadedModule pw usable c url p have "w' = w3"
                    by (simp add: runAtlasPrompt_def await_def Let_def chatUrl_def)
                  with t1 t2 t3 z2 Inl show ?thesis
                    by (intro none [of "[GetPwAiModule x] @ evs2 @ [CreatePage cdpUrl chatUrl z]"])
                       simp_all
                next
                  case page: (Inr info)
                  with assms sandbox Inr Some g loadedModule pw usable c url p
                  have region: "tryFinally
                          (tryCatch (promptSteps env options cdpUrl info (now w2)) promptFailed)
                          (closePage env pwModule cdpUrl info) w3 = (r, w')"
                    by (simp add: runAtlasPrompt_def await_def Let_def chatUrl_def)
                  from scoped_region_run [OF region] obtain evs4 cx where
                    t4: "trace w' = trace w3 @ evs4
                           @ (if hasClosePageByTargetIdViaPlaywright pwModule
                              then [ClosePage cdpUrl (targetId info) cx] else [])"
                    and q4: "list_all quietEvent evs4"
                    and au: "\<forall>e. r = Inl e \<longrightarrow> isAtlasUnavailableError e"
                    by blast
                  note z4 = quiet_events [OF q4]
                  define evs where
                    "evs = [GetPwAiModule x] @ evs2 @ [CreatePage cdpUrl chatUrl z] @ evs4
                             @ (if hasClosePageByTargetIdViaPlaywright pwModule
                                then [ClosePage cdpUrl (targetId info) cx] else [])"
                  have tr: "trace w' = trace w @ evs"
                    using t1 t2 t3 t4 by (simp add: evs_def)
                  have o: "opened evs = [(cdpUrl, targetId info)]"
                    using z2 z4 page by (simp add: evs_def)
                  have l: "loaded evs = [pwModule]"
                    using z2 z4 loadedModule pw by (simp add: evs_def)
                  have cl: "closed evs = (if hasClosePageByTargetIdViaPlaywright pwModule
                                          then [(cdpUrl, targetId info)] else [])"
                    using z2 z4 by (simp add: evs_def)
                  have la: "if hasClosePageByTargetIdViaPlaywright pwModule
                            then last evs = ClosePage cdpUrl (targetId info) cx else True"
                    by (simp add: evs_def)
                  from o l cl la au
                  have inner: "opened evs = [(cdpUrl, targetId info)]
                    \<and> loaded evs = [pwModule]
                    \<and> closed evs = (if hasClosePageByTargetIdViaPlaywright pwModule
                                     then [(cdpUrl, targetId info)] else [])
                    \<and> (if hasClosePageByTargetIdViaPlaywright pwModule
                        then last evs = ClosePage cdpUrl (targetId info) cx else True)
                    \<and> (\<forall>e. r = Inl e \<longrightarrow> isAtlasUnavailableError e)"
                    by (intro conjI)
                  have "\<exists>cdpUrl (info :: pageInfo) pwModule x.
                    opened evs = [(cdpUrl, targetId info)]
                    \<and> loaded evs = [pwModule]
                    \<and> closed evs = (if hasClosePageByTargetIdViaPlaywright pwModule
                                     then [(cdpUrl, targetId info)] else [])
                    \<and> (if hasClosePageByTargetIdViaPlaywright pwModule
                        then last evs = ClosePage cdpUrl (targetId info) x else True)
                    \<and> (\<forall>e. r = Inl e \<longrightarrow> isAtlasUnavailableError e)"
                    by (rule exI [of _ cdpUrl], rule exI [of _ info], rule exI [of _ pwModule],
                        rule exI [of _ cx], rule inner)
                  with tr show ?thesis by blast
                qed
              qed
            qed
          qed
        qed
      qed
    qed
  qed
qed

text \<open>
  C2, as stated, fails when the module that was loaded has no
  \<open>closePageByTargetIdViaPlaywright\<close>: the optional call in the \<open>finally\<close> clause then does
  nothing, and the page that was opened is never closed.
\<close>

theorem runAtlasPrompt_no_close_counterexample:
  "(let R = runAtlasPrompt noCloseEnv askHello world0
    in fst R = Inr \<lparr>resultText = ''Hello'', tookMs = 2842\<rparr>
       \<and> opened (added world0 (snd R)) = [(''ws://127.0.0.1:9222'', ''T1'')]
       \<and> closed (added world0 (snd R)) = [])"
  by code_simp

text \<open>
  C2, amended. Every run of \<open>runAtlasPrompt\<close> opens at most one page. When it has opened
  one and the module it loaded provides a close function, the close of that page (same
  connection URL, same target id) is called exactly once, as the last call of the run, on
  every exit path; when the module provides none, no close is called. The close never
  makes the run fail: the \<open>finally\<close> clause resolves whatever the close call does. A run
  that has opened a page either returns or raises the unified error. A run that has opened
  no page calls no close.
\<close>

theorem runAtlasPrompt_closes_page_once:
  assumes "runAtlasPrompt env options w = (r, w')"
  shows "trace w' = trace w @ added w w'
       \<and> (\<forall>pwModule cdpUrl info w0. fst (closePage env pwModule cdpUrl info w0) = Inr ())
       \<and> length (opened (added w w')) \<le> 1
       \<and> (\<forall>page \<in> set (opened (added w w')).
            \<exists>pwModule. loaded (added w w') = [pwModule]
              \<and> closed (added w w')
                  = (if hasClosePageByTargetIdViaPlaywright pwModule then [page] else [])
              \<and> (hasClosePageByTargetIdViaPlaywright pwModule
                   \<longrightarrow> (\<exists>x. last (added w w') = ClosePage (fst page) (snd page) x)))
       \<and> (opened (added w w') = [] \<longrightarrow> closed (added w w') = [])
       \<and> (opened (added w w') \<noteq> [] \<longrightarrow> (\<forall>e. r = Inl e \<longrightarrow> isAtlasUnavailableError e))"
proof -
  from runAtlasPrompt_run [OF assms] obtain evs where
    tr: "trace w' = trace w @ evs"
    and c: "opened evs = [] \<and> closed evs = []
              \<or> (\<exists>cdpUrl (info :: pageInfo) pwModule x.
                    opened evs = [(cdpUrl, targetId info)]
                    \<and> loaded evs = [pwModule]
                    \<and> closed evs = (if hasClosePageByTargetIdViaPlaywright pwModule
                                     then [(cdpUrl, targetId info)] else [])
                    \<and> (if hasClosePageByTargetIdViaPlaywright pwModule
                        then last evs = ClosePage cdpUrl (targetId info) x else True)
                    \<and> (\<forall>e. r = Inl e \<longrightarrow> isAtlasUnavailableError e))"
    by blast
  have a: "added w w' = evs" using tr by (rule added_append)
  have 1: "trace w' = trace w @ added w w'" using tr a by simp
  have 2: "\<forall>pwModule cdpUrl info w0. fst (closePage env pwModule cdpUrl info w0) = Inr ()"
    using closePage_run by blast
  from c show ?thesis
  proof
    assume "opened evs = [] \<and> closed evs = []"
    with 1 2 show ?thesis unfolding a by simp
  next
    assume "\<exists>cdpUrl (info :: pageInfo) pwModule x.
                    opened evs = [(cdpUrl, targetId info)]
                    \<and> loaded evs = [pwModule]
                    \<and> closed evs = (if hasClosePageByTargetIdViaPlaywright pwModule
                                     then [(cdpUrl, targetId info)] else [])
                    \<and> (if hasClosePageByTargetIdViaPlaywright pwModule
                        then last evs = ClosePage cdpUrl (targetId info) x else True)
                    \<and> (\<forall>e. r = Inl e \<longrightarrow> isAtlasUnavailableError e)"
    then obtain cdpUrl and info :: pageInfo and pwModule x where
      o: "opened evs = [(cdpUrl, targetId info)]"
      and l: "loaded evs = [pwModule]"
      and cl: "closed evs = (if hasClosePageByTargetIdViaPlaywright pwModule
                             then [(cdpUrl, targetId info)] else [])"
      and la: "if hasClosePageByTargetIdViaPlaywright pwModule
               then last evs = ClosePage cdpUrl (targetId info) x else True"
      and au: "\<forall>e. r = Inl e \<longrightarrow> isAtlasUnavailableError e"
      by blast
    have 4: "\<forall>page \<in> set (opened evs).
            \<exists>pwModule. loaded evs = [pwModule]
              \<and> closed evs = (if hasClosePageByTargetIdViaPlaywright pwModule then [page] else [])
              \<and> (hasClosePageByTargetIdViaPlaywright pwModule
                   \<longrightarrow> (\<exists>x. last evs = ClosePage (fst page) (snd page) x))"
      using o l cl la by auto
    from 1 2 4 o au show ?thesis unfolding a by simp
  qed
qed


theorem runAtlasPrompt_closes_page_once_witness:
  "(let R = runAtlasPrompt closeFailsEnv askHello world0
    in fst R = Inr \<lparr>resultText = ''Hello'', tookMs = 2842\<rparr>
       \<and> opened (added world0 (snd R)) = [(''ws://127.0.0.1:9222'', ''T1'')]
       \<and> closed (added world0 (snd R)) = [(''ws://127.0.0.1:9222'', ''T1'')]
       \<and> last (added world0 (snd R))
           = ClosePage ''ws://127.0.0.1:9222'' ''T1'' (Inl (OtherFault ''Error: Target closed'')))"
proof -
  define R where "R = runAtlasPrompt closeFailsEnv askHello world0"
  have "(let R = runAtlasPrompt closeFailsEnv askHello world0
         in (fst R, opened (added world0 (snd R)), loaded (added world0 (snd R)),
             last (added world0 (snd R))))
         = (Inr \<lparr>resultText = ''Hello'', tookMs = 2842\<rparr>,
            [(''ws://127.0.0.1:9222'', ''T1'')],
            [\<lparr>hasCreatePageViaPlaywright = True, hasGetPageForTargetId = True,
               hasClosePageByTargetIdViaPlaywright = True\<rparr>],
            ClosePage ''ws://127.0.0.1:9222'' ''T1'' (Inl (OtherFault ''Error: Target closed'')))"
    by code_simp
  then have r: "fst R = Inr \<lparr>resultText = ''Hello'', tookMs = 2842\<rparr>"
    and o: "opened (added world0 (snd R)) = [(''ws://127.0.0.1:9222'', ''T1'')]"
    and l: "loaded (added world0 (snd R))
             = [\<lparr>hasCreatePageViaPlaywright = True, hasGetPageForTargetId = True,
                  hasClosePageByTargetIdViaPlaywright = True\<rparr>]"
    and la: "last (added world0 (snd R))
              = ClosePage ''ws://127.0.0.1:9222'' ''T1'' (Inl (OtherFault ''Error: Target closed''))"
    by (simp_all add: Let_def R_def)
  have run: "runAtlasPrompt closeFailsEnv askHello world0 = (fst R, snd R)"
    by (simp add: R_def)
  from runAtlasPrompt_closes_page_once [OF run]
  have "\<forall>page \<in> set (opened (added world0 (snd R))).
            \<exists>pwModule. loaded (added world0 (snd R)) = [pwModule]
              \<and> closed (added world0 (snd R))
                  = (if hasClosePageByTargetIdViaPlaywright pwModule then [page] else [])
              \<and> (hasClosePageByTargetIdViaPlaywright pwModule
                   \<longrightarrow> (\<exists>x. last (added world0 (snd R)) = ClosePage (fst page) (snd page) x))"
    by blast
  then have c: "closed (added world0 (snd R)) = [(''ws://127.0.0.1:9222'', ''T1'')]"
    unfolding o l by simp
  from r o c la show ?thesis unfolding R_def Let_def by blast
qed

text \<open>What \<open>ensureAtlasCdpUrl\<close> answers when the endpoint never becomes available.\<close>

lemma blank_orElse: "(\<forall>u. v = Some u \<longrightarrow> trim u = '''') \<Longrightarrow> orElse (trimOpt v) d = d"
  by (cases v) (simp_all add: orElse_def trimOpt_def)

lemma ensureAtlasCdpUrl_unavailable:
  assumes status: "\<forall>w0. \<exists>status. fst (browserStatus env (name profile) w0) = Inr status
                      \<and> \<not> running status
                      \<and> (\<forall>u. statusCdpUrl status = Some u \<longrightarrow> trim u = '''')"
    and blank: "\<forall>u. profileCdpUrl profile = Some u \<longrightarrow> trim u = ''''"
  shows "fst (ensureAtlasCdpUrl env profile w) = Inl (AtlasUnavailableError ''Atlas profile has no CDP URL.'')
         \<or> (\<exists>w0 e. fst (browserStart env (name profile) w0) = Inl e
               \<and> fst (ensureAtlasCdpUrl env profile w)
                   = Inl (if isAtlasUnavailableError e then e
                          else AtlasUnavailableError
                                 (''Atlas browser is not reachable: '' @ stringOfErr e)))"
proof -
  define nm where "nm = name profile"
  obtain x1 w1 where p1: "perform (BrowserStatus nm) (browserStatus env nm) w = (x1, w1)"
    and f1: "x1 = fst (browserStatus env nm w)"
    by (rule perform_cases [of "BrowserStatus nm" "browserStatus env nm" w])
  from status f1 obtain s1 where s1: "x1 = Inr s1" "\<not> running s1"
    unfolding nm_def by metis
  obtain x2 w2 where p2: "perform (BrowserStart nm) (browserStart env nm) w1 = (x2, w2)"
    and f2: "x2 = fst (browserStart env nm w1)"
    by (rule perform_cases [of "BrowserStart nm" "browserStart env nm" w1])
  show ?thesis
  proof (cases x2)
    case (Inl e)
    have "fst (ensureAtlasCdpUrl env profile w)
            = Inl (if isAtlasUnavailableError e then e
                   else AtlasUnavailableError
                          (''Atlas browser is not reachable: '' @ stringOfErr e))"
      using p1 s1 p2 Inl
      by (simp add: ensureAtlasCdpUrl_def tryCatch_def await_def reject_def nm_def [symmetric])
    moreover have "fst (browserStart env (name profile) w1) = Inl e"
      using f2 Inl by (simp add: nm_def)
    ultimately show ?thesis by blast
  next
    case (Inr u)
    obtain x3 w3 where p3: "perform (BrowserStatus nm) (browserStatus env nm) w2 = (x3, w3)"
      and f3: "x3 = fst (browserStatus env nm w2)"
      by (rule perform_cases [of "BrowserStatus nm" "browserStatus env nm" w2])
    from status f3 obtain s3 where
      s3: "x3 = Inr s3" "\<forall>u. statusCdpUrl s3 = Some u \<longrightarrow> trim u = ''''"
      unfolding nm_def by metis
    have url: "orElse (trimOpt (statusCdpUrl s3)) (orElse (trimOpt (profileCdpUrl profile)) '''') = ''''"
      using blank_orElse [OF s3(2)] blank_orElse [OF blank] by simp
    have "fst (ensureAtlasCdpUrl env profile w)
            = Inl (AtlasUnavailableError ''Atlas profile has no CDP URL.'')"
      using p1 s1 p2 Inr p3 s3(1) url
      by (simp add: ensureAtlasCdpUrl_def tryCatch_def await_def reject_def Let_def
            nm_def [symmetric])
    then show ?thesis by blast
  qed
qed

text \<open>
  C6. When the run gets as far as the connection endpoint (it is not sandboxed, the
  profile resolves and the module loads with its two functions), the status of the
  browser reports, however often it is asked, that the browser is not running and gives no
  connection URL that is non-empty after trimming, and the profile has none either, then
  \<open>runAtlasPrompt\<close> raises the unified error: "Atlas profile has no CDP URL." when the start
  request returned, and the error of a start request that failed (as it is when it is the
  unified error, and otherwise wrapped as "Atlas browser is not reachable: ..."). No page
  is opened and no close is called.
\<close>

theorem runAtlasPrompt_endpoint_unavailable:
  assumes "optSandboxed options \<noteq> Some True"
    and "resolveAtlasProfile env (optConfig options) = Inr (Some profile)"
    and "fst (getPwAiModule env w) = Inr (Some pwModule)"
    and "hasCreatePageViaPlaywright pwModule \<and> hasGetPageForTargetId pwModule"
    and "\<forall>w0. \<exists>status. fst (browserStatus env (name profile) w0) = Inr status
                      \<and> \<not> running status
                      \<and> (\<forall>u. statusCdpUrl status = Some u \<longrightarrow> trim u = '''')"
    and "\<forall>u. profileCdpUrl profile = Some u \<longrightarrow> trim u = ''''"
    and "runAtlasPrompt env options w = (r, w')"
  shows "(r = Inl (AtlasUnavailableError ''Atlas profile has no CDP URL.'')
          \<or> (\<exists>w0 e. fst (browserStart env (name profile) w0) = Inl e
                \<and> r = Inl (if isAtlasUnavailableError e then e
                            else AtlasUnavailableError
                                   (''Atlas browser is not reachable: '' @ stringOfErr e))))
       \<and> opened (added w w') = []
       \<and> closed (added w w') = []"
proof -
  obtain x w1 where g: "perform GetPwAiModule (getPwAiModule env) w = (x, w1)"
    and t1: "trace w1 = trace w @ [GetPwAiModule x]"
    and f: "x = fst (getPwAiModule env w)"
    by (rule perform_cases [of GetPwAiModule "getPwAiModule env" w])
  from f assms(3) have x: "x = Inr (Some pwModule)" by simp
  obtain y w2 evs2 where c: "ensureAtlasCdpUrl env profile w1 = (y, w2)"
    and t2: "trace w2 = trace w1 @ evs2" and q2: "list_all quietEvent evs2"
    by (rule quietly_cases [OF quietly_ensureAtlasCdpUrl])
  from ensureAtlasCdpUrl_unavailable [OF assms(5,6), of w1] c
  have y: "y = Inl (AtlasUnavailableError ''Atlas profile has no CDP URL.'')
         \<or> (\<exists>w0 e. fst (browserStart env (name profile) w0) = Inl e
               \<and> y = Inl (if isAtlasUnavailableError e then e
                           else AtlasUnavailableError
                                  (''Atlas browser is not reachable: '' @ stringOfErr e)))"
    by simp
  then obtain e where ye: "y = Inl e" by auto
  from assms(1,2,4,7) g x c ye have rw: "r = Inl e" "w' = w2"
    by (simp_all add: runAtlasPrompt_def await_def)
  from y ye have e: "e = AtlasUnavailableError ''Atlas profile has no CDP URL.''
         \<or> (\<exists>w0 e0. fst (browserStart env (name profile) w0) = Inl e0
               \<and> e = (if isAtlasUnavailableError e0 then e0
                       else AtlasUnavailableError
                              (''Atlas browser is not reachable: '' @ stringOfErr e0)))"
    by auto
  have "trace w' = trace w @ ([GetPwAiModule x] @ evs2)"
    using rw t1 t2 by simp
  then have a: "added w w' = [GetPwAiModule x] @ evs2" by (rule added_append)
  from quiet_events [OF q2] have "opened (added w w') = []" "closed (added w w') = []"
    unfolding a by simp_all
  with e rw show ?thesis by auto
qed

theorem runAtlasPrompt_endpoint_unavailable_witness:
  "(let R = runAtlasPrompt unreachableEnv askHello world0
    in fst R = Inl (AtlasUnavailableError ''Atlas profile has no CDP URL.'')
       \<and> added world0 (snd R)
           = [GetPwAiModule
                (Inr (Some \<lparr>hasCreatePageViaPlaywright = True, hasGetPageForTargetId = True,
                             hasClosePageByTargetIdViaPlaywright = True\<rparr>)),
              BrowserStatus ''atlas'' (Inr \<lparr>running = False, statusCdpUrl = Some ''  ''\<rparr>),
              BrowserStart ''atlas'' (Inr ()),
              BrowserStatus ''atlas'' (Inr \<lparr>running = False, statusCdpUrl = Some ''  ''\<rparr>)]
       \<and> opened (added world0 (snd R)) = [])"
proof -
  define R where "R = runAtlasPrompt unreachableEnv askHello world0"
  define profile where "profile = \<lparr>name = ''atlas'', profileCdpUrl = None\<rparr>"
  define pwModule where
    "pwModule = \<lparr>hasCreatePageViaPlaywright = True, hasGetPageForTargetId = True,
                 hasClosePageByTargetIdViaPlaywright = True\<rparr>"
  have t: "trim ''  '' = ''''" by (simp add: trim_def isWhiteSpace_def)
  have 1: "optSandboxed askHello \<noteq> Some True" by (simp add: askHello_def)
  have 2: "resolveAtlasProfile unreachableEnv (optConfig askHello) = Inr (Some profile)"
    by (simp add: resolveAtlasProfile_def unreachableEnv_def helloEnv_def browserEnv_def
          profile_def)
  have 3: "fst (getPwAiModule unreachableEnv world0) = Inr (Some pwModule)"
    by (simp add: unreachableEnv_def helloEnv_def browserEnv_def pwModule_def)
  have 4: "hasCreatePageViaPlaywright pwModule \<and> hasGetPageForTargetId pwModule"
    by (simp add: pwModule_def)
  have 5: "\<forall>w0. \<exists>status. fst (browserStatus unreachableEnv (name profile) w0) = Inr status
                      \<and> \<not> running status
                      \<and> (\<forall>u. statusCdpUrl status = Some u \<longrightarrow> trim u = '''')"
    by (simp add: unreachableEnv_def helloEnv_def browserEnv_def t)
  have 6: "\<forall>u. profileCdpUrl profile = Some u \<longrightarrow> trim u = ''''"
    by (simp add: profile_def)
  have 7: "runAtlasPrompt unreachableEnv askHello world0 = (fst R, snd R)"
    by (simp add: R_def)
  have s: "\<forall>w0. fst (browserStart unreachableEnv (name profile) w0) = Inr ()"
    by (simp add: unreachableEnv_def helloEnv_def browserEnv_def)
  from runAtlasPrompt_endpoint_unavailable [OF 1 2 3 4 5 6 7] s
  have r: "fst R = Inl (AtlasUnavailableError ''Atlas profile has no CDP URL.'')"
    and o: "opened (added world0 (snd R)) = []"
    by auto
  have a: "added world0 (snd R)
           = [GetPwAiModule
                (Inr (Some \<lparr>hasCreatePageViaPlaywright = True, hasGetPageForTargetId = True,
                             hasClosePageByTargetIdViaPlaywright = True\<rparr>)),
              BrowserStatus ''atlas'' (Inr \<lparr>running = False, statusCdpUrl = Some ''  ''\<rparr>),
              BrowserStart ''atlas'' (Inr ()),
              BrowserStatus ''atlas'' (Inr \<lparr>running = False, statusCdpUrl = Some ''  ''\<rparr>)]"
    unfolding R_def by code_simp
  from r a o show ?thesis unfolding R_def Let_def by blast
qed

text \<open>
  C1 fails on the code: \<open>createPageViaPlaywright\<close> is awaited before the \<open>try\<close> block, and
  \<open>resolveAtlasProfile\<close> is called outside any handler, so what they throw reaches the
  caller as it is. Here the connection is refused when the page is opened, and in the
  second run the browser configuration cannot be resolved.
\<close>

theorem runAtlasPrompt_raw_fault_escapes:
  "fst (runAtlasPrompt refusedEnv askHello world0)
     = Inl (OtherFault ''Error: connect ECONNREFUSED 127.0.0.1:9222'')
   \<and> fst (runAtlasPrompt
            (helloEnv\<lparr>resolveBrowserConfig :=
                        (\<lambda>cfg. Inl (OtherFault ''Error: invalid browser config''))\<rparr>)
            askHello world0)
     = Inl (OtherFault ''Error: invalid browser config'')
   \<and> \<not> isAtlasUnavailableError (OtherFault ''Error: connect ECONNREFUSED 127.0.0.1:9222'')"
  by code_simp

theorem runAtlasPrompt_raw_fault_escapes_witness:
  "\<exists>e. fst (runAtlasPrompt refusedEnv askHello world0) = Inl e \<and> \<not> isAtlasUnavailableError e"
  using runAtlasPrompt_raw_fault_escapes by blast

end
